theory Spec2Isabelle
  imports Complex_Main
begin

section \<open>B-spline fitting: the builder of SPLINTER (bspline\_builder.cpp)\<close>

text \<open>
  The development embeds \<^verbatim>\<open>src/bspline_builder.cpp\<close>. A value of type
  \<^verbatim>\<open>unsigned int\<close> (a dimension, a count of basis functions or of samples) is a
  natural number. A variable of type \<^verbatim>\<open>int\<close> of the difference matrix builder is
  an integer, and every assignment to it wraps to 32 bits (\<open>int32\<close> below). The other
  \<^verbatim>\<open>int\<close> variables of the source (the row index of the loops over the samples, the
  number of equations) count the rows of a matrix that has been built, and are natural
  numbers. Matrix coefficients (\<^verbatim>\<open>double\<close>) are real numbers. Every \<^verbatim>\<open>throw\<close> of the source
  is a value \<open>Inl e\<close> of the result type.
\<close>

subsection \<open>Errors\<close>

text \<open>
  The source throws one exception class with a message; the kinds below name the throw
  sites: the two dimension checks of \<^verbatim>\<open>fit\<close> (\<open>DimensionMismatch\<close>), its check of
  \<^verbatim>\<open>alpha\<close> (\<open>InvalidParameter\<close>), the size check of \<^verbatim>\<open>computeKnotVectors\<close>
  (\<open>InconsistentConfiguration\<close>), the check of three basis functions per variable
  (\<open>InvalidConfiguration\<close>), the failed solve (\<open>SolveFailure\<close>), and the
  \<^verbatim>\<open>std::out_of_range\<close> of \<^verbatim>\<open>vector::at\<close> (\<open>OutOfRange\<close>).
\<close>

datatype error =
    DimensionMismatch
  | InvalidParameter
  | InconsistentConfiguration
  | InvalidConfiguration
  | SolveFailure
  | OutOfRange

definition at_vec :: "'a list \<Rightarrow> nat \<Rightarrow> error + 'a" where
  "at_vec xs i = (if i < length xs then Inr (xs ! i) else Inl OutOfRange)"

fun sequence_res :: "(error + 'a) list \<Rightarrow> error + 'a list" where
  "sequence_res [] = Inr []"
| "sequence_res (r # rs) =
     (case r of
        Inl e \<Rightarrow> Inl e
      | Inr v \<Rightarrow> (case sequence_res rs of Inl e \<Rightarrow> Inl e | Inr vs \<Rightarrow> Inr (v # vs)))"

subsection \<open>Matrices\<close>

text \<open>
  A sparse matrix under construction is its shape and the list of coordinate
  insertions \<^verbatim>\<open>D.insert(i,k) = v\<close>, in the order the source makes them.
\<close>

type_synonym triplet = "nat \<times> nat \<times> real"

record SparseMatrix =
  rows :: nat
  cols :: nat
  elems :: "triplet list"

definition SparseMatrix_ctor :: "nat \<Rightarrow> nat \<Rightarrow> SparseMatrix" where
  "SparseMatrix_ctor r c = \<lparr>rows = r, cols = c, elems = []\<rparr>"

definition insert_elem :: "SparseMatrix \<Rightarrow> nat \<Rightarrow> nat \<Rightarrow> real \<Rightarrow> SparseMatrix" where
  "insert_elem M i k v = M\<lparr>elems := elems M @ [(i, k, v)]\<rparr>"

text \<open>
  The value of a matrix is its shape and its coefficients; a coefficient outside the
  shape is 0. The sparse and the dense matrix classes of the source share this type
  of values, so \<^verbatim>\<open>A.toDense()\<close> does not change a value.
\<close>

record matrix =
  nrows :: nat
  ncols :: nat
  coeff :: "nat \<Rightarrow> nat \<Rightarrow> real"

definition matrix_of :: "SparseMatrix \<Rightarrow> matrix" where
  "matrix_of S =
     \<lparr>nrows = rows S, ncols = cols S,
      coeff = (\<lambda>i j. if i < rows S \<and> j < cols S
                then sum_list (map (\<lambda>e. snd (snd e))
                       (filter (\<lambda>e. fst e = i \<and> fst (snd e) = j) (elems S)))
                else 0)\<rparr>"

definition transpose_mat :: "matrix \<Rightarrow> matrix" where
  "transpose_mat M =
     \<lparr>nrows = ncols M, ncols = nrows M,
      coeff = (\<lambda>i j. if i < ncols M \<and> j < nrows M then coeff M j i else 0)\<rparr>"

definition mat_mult :: "matrix \<Rightarrow> matrix \<Rightarrow> matrix" where
  "mat_mult M N =
     \<lparr>nrows = nrows M, ncols = ncols N,
      coeff = (\<lambda>i j. if i < nrows M \<and> j < ncols N
                then (\<Sum>k<ncols M. coeff M i k * coeff N k j) else 0)\<rparr>"

definition mat_add :: "matrix \<Rightarrow> matrix \<Rightarrow> matrix" where
  "mat_add M N =
     \<lparr>nrows = nrows M, ncols = ncols M,
      coeff = (\<lambda>i j. if i < nrows M \<and> j < ncols M then coeff M i j + coeff N i j else 0)\<rparr>"

definition scalar_mult :: "real \<Rightarrow> matrix \<Rightarrow> matrix" where
  "scalar_mult a M =
     \<lparr>nrows = nrows M, ncols = ncols M,
      coeff = (\<lambda>i j. if i < nrows M \<and> j < ncols M then a * coeff M i j else 0)\<rparr>"

definition setIdentity :: "nat \<Rightarrow> nat \<Rightarrow> matrix" where
  "setIdentity r c =
     \<lparr>nrows = r, ncols = c,
      coeff = (\<lambda>i j. if i < r \<and> j < c \<and> i = j then 1 else 0)\<rparr>"

subsection \<open>The spline shell\<close>

text \<open>
  The class \<^verbatim>\<open>BSpline\<close> is declared outside \<^verbatim>\<open>bspline_builder.cpp\<close>; the record
  holds what the builder reads from it.
\<close>

record BSpline =
  getDimX :: nat
  getDimY :: nat
  getKnotVectors :: "real list list"
  getDegrees :: "nat list"
  getNumBasisFunctionsPerVariable :: "nat list"
  getNumBasisFunctions :: nat
  getControlPoints :: "matrix option"

subsection \<open>The second-order finite-difference matrix\<close>

text \<open>
  The 32-bit \<^verbatim>\<open>int\<close> of the source: \<open>int32 x\<close> is the value of an \<^verbatim>\<open>int\<close>
  that is assigned the exact result \<open>x\<close>, wrapped into the range from \<open>- 2^31\<close> to
  \<open>2^31 - 1\<close>. An expression that mixes \<^verbatim>\<open>int\<close> and \<^verbatim>\<open>unsigned int\<close> is
  computed modulo \<open>2^32\<close> and converted back; the wrap of a sum or a product of wrapped
  values is the wrap of the exact sum or product (\<open>int32_add_left\<close>,
  \<open>int32_mult_left\<close> below), so one wrap per assignment gives the same value.
\<close>

definition int32 :: "int \<Rightarrow> int" where
  "int32 x = (x + 2 ^ 31) mod 2 ^ 32 - 2 ^ 31"

text \<open>
  \<^verbatim>\<open>getSecondOrderFiniteDifferenceMatrix\<close>, lines 219-315. The state of the
  insertion loops is the row index \<open>i\<close> (an \<^verbatim>\<open>int\<close>) and the matrix.
  \<open>insertStencil\<close> is the three insertions of one row (lines 286-292 and 299-305),
  \<open>blockRows\<close> the body of the loop over \<open>l\<close> with its special case for the first
  dimension (lines 283-307), \<open>subblock\<close> the loop over \<open>l\<close> (line 281), \<open>block\<close>
  the body of the loop over the dimensions with the loop over \<open>j\<close> (lines 263-309),
  \<open>leftProd_of\<close> and \<open>rightProd_of\<close> the two product loops (lines 264-273) and
  \<open>numBlkRows_of\<close> the row counts of the blocks (lines 239-253). The variables
  \<^verbatim>\<open>numRows\<close>, \<^verbatim>\<open>prod\<close>, \<^verbatim>\<open>i\<close>, \<^verbatim>\<open>leftProd\<close>, \<^verbatim>\<open>rightProd\<close>,
  \<^verbatim>\<open>j\<close>, \<^verbatim>\<open>blkBaseCol\<close>, \<^verbatim>\<open>k\<close> and \<^verbatim>\<open>n\<close> are \<^verbatim>\<open>int\<close>; the loops
  over \<^verbatim>\<open>j\<close> and \<^verbatim>\<open>n\<close> do not run when their bound is not positive. The matrix
  class takes a shape and indices that are not negative: a negative \<^verbatim>\<open>int\<close> passed to
  it is read as 0 (\<open>nat\<close>), which happens only after a wrap. The calls
  \<^verbatim>\<open>reserve\<close> and \<^verbatim>\<open>makeCompressed\<close> change the storage of the matrix, not its
  entries, and are left out of the function; \<open>reserveSizes\<close> below is the argument of
  the first.
\<close>

definition insertStencil :: "int \<Rightarrow> int \<Rightarrow> int \<times> SparseMatrix \<Rightarrow> int \<times> SparseMatrix" where
  "insertStencil k leftProd s =
     (case s of (i, D) \<Rightarrow>
        (let D1 = insert_elem D (nat i) (nat k) 1;
             k1 = int32 (k + leftProd);
             D2 = insert_elem D1 (nat i) (nat k1) (- 2);
             k2 = int32 (k1 + leftProd);
             D3 = insert_elem D2 (nat i) (nat k2) 1
         in (int32 (i + 1), D3)))"

definition blockRows ::
  "nat list \<Rightarrow> nat \<Rightarrow> int \<Rightarrow> int \<Rightarrow> nat \<Rightarrow> int \<times> SparseMatrix \<Rightarrow> int \<times> SparseMatrix" where
  "blockRows dims d leftProd j l s =
     (let blkBaseCol = int32 (j * leftProd * int (dims ! d)) in
      if d = 0 then insertStencil (int32 (j * leftProd * int (dims ! d) + int l)) leftProd s
      else foldl (\<lambda>s n. insertStencil (int32 (blkBaseCol + int l * leftProd + n)) leftProd s) s
             (map int [0..<nat leftProd]))"

definition subblock ::
  "nat list \<Rightarrow> nat \<Rightarrow> int \<Rightarrow> int \<Rightarrow> int \<times> SparseMatrix \<Rightarrow> int \<times> SparseMatrix" where
  "subblock dims d leftProd j s =
     foldl (\<lambda>s l. blockRows dims d leftProd j l s) s [0..<dims ! d - 2]"

definition leftProd_of :: "nat list \<Rightarrow> nat \<Rightarrow> int" where
  "leftProd_of dims d = foldl (\<lambda>p k. int32 (p * int (dims ! k))) 1 [0..<d]"

definition rightProd_of :: "nat list \<Rightarrow> nat \<Rightarrow> nat \<Rightarrow> int" where
  "rightProd_of dims numVariables d =
     foldl (\<lambda>p k. int32 (p * int (dims ! k))) 1 [d + 1..<numVariables]"

definition block ::
  "nat list \<Rightarrow> nat \<Rightarrow> nat \<Rightarrow> int \<times> SparseMatrix \<Rightarrow> int \<times> SparseMatrix" where
  "block dims numVariables d s =
     (let leftProd = leftProd_of dims d;
          rightProd = rightProd_of dims numVariables d
      in foldl (\<lambda>s j. subblock dims d leftProd j s) s (map int [0..<nat rightProd]))"

definition numBlkRows_of :: "nat list \<Rightarrow> nat \<Rightarrow> int list" where
  "numBlkRows_of dims numVariables =
     map (\<lambda>i. foldl (\<lambda>prod j. if i = j then int32 (prod * int (dims ! j - 2))
                              else int32 (prod * int (dims ! j)))
                 1 [0..<numVariables])
       [0..<numVariables]"

definition getSecondOrderFiniteDifferenceMatrix :: "BSpline \<Rightarrow> error + SparseMatrix" where
  "getSecondOrderFiniteDifferenceMatrix bspline =
     (let numVariables = getDimX bspline;
          numCols = getNumBasisFunctions bspline;
          numBasisFunctions = getNumBasisFunctionsPerVariable bspline
      in case sequence_res (map (at_vec numBasisFunctions) [0..<numVariables]) of
           Inl e \<Rightarrow> Inl e
         | Inr pushed \<Rightarrow>
             (let dims = rev pushed in
              if list_ex (\<lambda>i. numBasisFunctions ! i < 3) [0..<numVariables]
              then Inl InvalidConfiguration
              else
                (let numBlkRows = numBlkRows_of dims numVariables;
                     numRows = foldl (\<lambda>numRows prod. int32 (numRows + prod)) 0 numBlkRows;
                     D = SparseMatrix_ctor (nat numRows) numCols
                 in Inr (snd (foldl (\<lambda>s d. block dims numVariables d s) (0, D)
                                [0..<numVariables])))))"

text \<open>
  The argument of \<^verbatim>\<open>D.reserve\<close> at line 257, the number of entries the source reserves
  for each column of \<open>D\<close>: \<^verbatim>\<open>DenseVector::Constant(numCols, 2*numVariables)\<close>, under
  the comment \<^verbatim>\<open>D has no more than two elems per col per dim\<close>.
\<close>

definition reserveSizes :: "BSpline \<Rightarrow> nat list" where
  "reserveSizes bspline =
     (let numVariables = getDimX bspline;
          numCols = getNumBasisFunctions bspline
      in replicate numCols (2 * numVariables))"

subsection \<open>Configuration, data table and collaborators\<close>

datatype Smoothing = NONE | IDENTITY | PSPLINE

datatype KnotSpacing = AS_SAMPLED | EQUIDISTANT | EXPERIMENTAL

record Builder =
  dim_x :: nat
  dim_y :: nat
  degrees :: "nat list"
  numBasisFunctions :: "nat list"
  knotSpacing :: KnotSpacing

text \<open>
  What the builder reads from the class \<^verbatim>\<open>DataTable\<close>: the two dimensions
  \<^verbatim>\<open>getDimX()\<close> and \<^verbatim>\<open>getDimY()\<close> (\<open>tableDimX\<close>, \<open>tableDimY\<close>), the
  samples in iteration order (each with \<^verbatim>\<open>getX()\<close> and \<^verbatim>\<open>getY()\<close>) and the
  grid \<^verbatim>\<open>getTableX()\<close>.
\<close>

record DataTable =
  tableDimX :: nat
  tableDimY :: nat
  samples :: "(real list \<times> real list) list"
  getTableX :: "real list list"

definition getNumSamples :: "DataTable \<Rightarrow> nat" where
  "getNumSamples data = length (samples data)"

text \<open>
  The functions the builder calls and \<^verbatim>\<open>bspline_builder.cpp\<close> does not define are
  parameters: the three knot vector constructions of \<^verbatim>\<open>knot_utils.h\<close>, the basis
  evaluation of the shell, and the two solvers of \<^verbatim>\<open>linear_solvers.h\<close>, whose
  \<^verbatim>\<open>solve(A, b, x)\<close> returns false (\<open>None\<close>) or true with the solution \<open>x\<close>.
  They are total functions here: an exception raised inside one of them is not modelled.
\<close>

record Collaborators =
  knotVectorMovingAverage :: "real list \<Rightarrow> nat \<Rightarrow> real list"
  knotVectorEquidistant :: "real list \<Rightarrow> nat \<Rightarrow> nat \<Rightarrow> real list"
  knotVectorEquidistantNotClamped :: "real list \<Rightarrow> nat \<Rightarrow> nat \<Rightarrow> real list"
  evalBasis :: "BSpline \<Rightarrow> real list \<Rightarrow> (nat \<times> real) list"
  sparseLU_solve :: "matrix \<Rightarrow> matrix \<Rightarrow> matrix option"
  denseQR_solve :: "matrix \<Rightarrow> matrix \<Rightarrow> matrix option"

text \<open>
  Modelled from the spec: the helper \<^verbatim>\<open>getBSplineDegrees\<close> is declared in the
  header of the builder, which is not among the sources. The constructor calls it with
  the number of variables and the degree 3; the spec gives degree 3 per dimension as the
  default.
\<close>

definition getBSplineDegrees :: "nat \<Rightarrow> nat \<Rightarrow> nat list" where
  "getBSplineDegrees numVariables degree = replicate numVariables degree"

text \<open>The constructor \<^verbatim>\<open>BSpline::Builder::Builder\<close>, lines 22-29.\<close>

definition Builder_ctor :: "nat \<Rightarrow> nat \<Rightarrow> Builder" where
  "Builder_ctor dx dy =
     \<lparr>dim_x = dx, dim_y = dy,
      degrees = getBSplineDegrees dx 3,
      numBasisFunctions = replicate dx 1,
      knotSpacing = AS_SAMPLED\<rparr>"

text \<open>
  Modelled from the spec: the constructor of the class \<^verbatim>\<open>BSpline\<close> is not among the
  sources. By the spec, each per-dimension count of basis functions is the length of the
  knot vector minus the degree minus 1, and the number of basis functions is the product
  of the per-dimension counts; the shell is built with default coefficients.
\<close>

definition BSpline_ctor :: "nat \<Rightarrow> nat \<Rightarrow> real list list \<Rightarrow> nat list \<Rightarrow> BSpline" where
  "BSpline_ctor dx dy knotVectors degs =
     \<lparr>getDimX = dx, getDimY = dy, getKnotVectors = knotVectors, getDegrees = degs,
      getNumBasisFunctionsPerVariable = map2 (\<lambda>kv deg. length kv - deg - 1) knotVectors degs,
      getNumBasisFunctions = prod_list (map2 (\<lambda>kv deg. length kv - deg - 1) knotVectors degs),
      getControlPoints = None\<rparr>"

definition setControlPoints :: "BSpline \<Rightarrow> matrix \<Rightarrow> BSpline" where
  "setControlPoints bspline coefficients = bspline\<lparr>getControlPoints := Some coefficients\<rparr>"

subsection \<open>Knot vectors\<close>

text \<open>
  \<^verbatim>\<open>computeKnotVector\<close>, lines 339-354, and \<^verbatim>\<open>computeKnotVectors\<close>, lines
  318-336. The \<^verbatim>\<open>default\<close> branch of the switch is for values outside the
  enumeration, which the datatype does not have.
\<close>

definition computeKnotVector ::
  "Collaborators \<Rightarrow> Builder \<Rightarrow> real list \<Rightarrow> nat \<Rightarrow> nat \<Rightarrow> real list" where
  "computeKnotVector env builder vals degree numBasis =
     (case knotSpacing builder of
        AS_SAMPLED \<Rightarrow> knotVectorMovingAverage env vals degree
      | EQUIDISTANT \<Rightarrow> knotVectorEquidistant env vals degree numBasis
      | EXPERIMENTAL \<Rightarrow> knotVectorEquidistantNotClamped env vals degree numBasis)"

definition computeKnotVectors ::
  "Collaborators \<Rightarrow> Builder \<Rightarrow> DataTable \<Rightarrow> error + real list list" where
  "computeKnotVectors env builder data =
     (if dim_x builder \<noteq> length (degrees builder) then Inl InconsistentConfiguration
      else
        (let grid = getTableX data in
         sequence_res
           (map (\<lambda>i. case at_vec grid i of
                        Inl e \<Rightarrow> Inl e
                      | Inr g \<Rightarrow>
                          (case at_vec (degrees builder) i of
                             Inl e \<Rightarrow> Inl e
                           | Inr deg \<Rightarrow>
                               (case at_vec (numBasisFunctions builder) i of
                                  Inl e \<Rightarrow> Inl e
                                | Inr nb \<Rightarrow> Inr (computeKnotVector env builder g deg nb))))
              [0..<dim_x builder])))"

subsection \<open>Assembling and solving the system\<close>

text \<open>
  The log records, in order, the matrices \<^verbatim>\<open>computeControlPoints\<close> constructs and
  the solvers it calls.
\<close>

datatype event =
    Construct_B
  | Construct_A
  | Construct_b
  | Construct_Bt
  | Construct_I
  | Construct_W
  | Construct_D
  | Construct_Ad
  | Solve_SparseLU
  | Solve_DenseQR

text \<open>\<^verbatim>\<open>computeBasisFunctionMatrix\<close>, lines 177-199.\<close>

definition computeBasisFunctionMatrix ::
  "Collaborators \<Rightarrow> BSpline \<Rightarrow> DataTable \<Rightarrow> SparseMatrix" where
  "computeBasisFunctionMatrix env bspline data =
     (let numSamples = getNumSamples data;
          A = SparseMatrix_ctor numSamples (getNumBasisFunctions bspline)
      in foldl (\<lambda>A (i, smp).
                  (let xi = fst smp;
                       basis_values = evalBasis env bspline xi
                   in foldl (\<lambda>A (index, v). insert_elem A i index v) A basis_values))
           A (zip [0..<numSamples] (samples data)))"

text \<open>\<^verbatim>\<open>stackSamplePointValues\<close>, lines 201-213.\<close>

definition stackSamplePointValues :: "DataTable \<Rightarrow> error + matrix" where
  "stackSamplePointValues data =
     (case sequence_res
             (map (\<lambda>smp. sequence_res (map (at_vec (snd smp)) [0..<tableDimY data]))
                (samples data)) of
        Inl e \<Rightarrow> Inl e
      | Inr ys \<Rightarrow>
          Inr \<lparr>nrows = getNumSamples data, ncols = tableDimY data,
               coeff = (\<lambda>i j. if i < getNumSamples data \<and> j < tableDimY data
                         then ys ! i ! j else 0)\<rparr>)"

text \<open>
  \<^verbatim>\<open>computeControlPoints\<close>, lines 73-175, is the composition of two parts:
  \<open>assembleSystem\<close>, lines 78-138, builds the system \<open>(A, b)\<close> of the smoothing mode,
  and \<open>solveSystem\<close>, lines 140-174, solves it. Each returns its log with its result.
\<close>

definition assembleSystem ::
  "Collaborators \<Rightarrow> BSpline \<Rightarrow> DataTable \<Rightarrow> Smoothing \<Rightarrow> real
     \<Rightarrow> event list \<times> (error + matrix \<times> matrix)" where
  "assembleSystem env bspline data smoothing alpha =
     (let B = matrix_of (computeBasisFunctionMatrix env bspline data);
          A = B
      in case stackSamplePointValues data of
           Inl e \<Rightarrow> ([Construct_B, Construct_A], Inl e)
         | Inr b \<Rightarrow>
             if smoothing = IDENTITY then
               (let Bt = transpose_mat B;
                    A = mat_mult Bt B;
                    b = mat_mult Bt b;
                    I = setIdentity (ncols A) (ncols A);
                    A = mat_add A (scalar_mult alpha I)
                in ([Construct_B, Construct_A, Construct_b, Construct_Bt, Construct_I],
                    Inr (A, b)))
             else if smoothing = PSPLINE then
               (let numSamples = getNumSamples data;
                    Bt = transpose_mat B;
                    W = setIdentity numSamples numSamples
                in case getSecondOrderFiniteDifferenceMatrix bspline of
                     Inl e \<Rightarrow>
                       ([Construct_B, Construct_A, Construct_b, Construct_Bt, Construct_W],
                        Inl e)
                   | Inr Ds \<Rightarrow>
                       (let D = matrix_of Ds;
                            A = mat_add (mat_mult (mat_mult Bt W) B)
                                  (mat_mult (scalar_mult alpha (transpose_mat D)) D);
                            b = mat_mult (mat_mult Bt W) b
                        in ([Construct_B, Construct_A, Construct_b, Construct_Bt, Construct_W,
                             Construct_D],
                            Inr (A, b))))
             else ([Construct_B, Construct_A, Construct_b], Inr (A, b)))"

definition solveSystem ::
  "Collaborators \<Rightarrow> matrix \<Rightarrow> matrix \<Rightarrow> event list \<times> (error + matrix)" where
  "solveSystem env A b =
     (let x0 = \<lparr>nrows = 0, ncols = 0, coeff = (\<lambda>i j. 0)\<rparr>;
          numEquations = int (nrows A);
          maxNumEquations = 100;
          solveAsDense = (numEquations < maxNumEquations);
          (evs1, solveAsDense, x) =
             (if \<not> solveAsDense then
                (case sparseLU_solve env A b of
                   None \<Rightarrow> ([Solve_SparseLU], True, x0)
                 | Some x \<Rightarrow> ([Solve_SparseLU], False, x))
              else ([], solveAsDense, x0))
      in if solveAsDense then
           (let Ad = A in
            case denseQR_solve env Ad b of
              None \<Rightarrow> (evs1 @ [Construct_Ad, Solve_DenseQR], Inl SolveFailure)
            | Some x \<Rightarrow> (evs1 @ [Construct_Ad, Solve_DenseQR], Inr x))
         else (evs1, Inr x))"

definition computeControlPoints ::
  "Collaborators \<Rightarrow> BSpline \<Rightarrow> DataTable \<Rightarrow> Smoothing \<Rightarrow> real
     \<Rightarrow> event list \<times> (error + matrix)" where
  "computeControlPoints env bspline data smoothing alpha =
     (case assembleSystem env bspline data smoothing alpha of
        (evs, Inl e) \<Rightarrow> (evs, Inl e)
      | (evs, Inr (A, b)) \<Rightarrow>
          (case solveSystem env A b of (evs2, r) \<Rightarrow> (evs @ evs2, r)))"

subsection \<open>The fit\<close>

text \<open>
  \<^verbatim>\<open>BSpline::Builder::fit\<close>, lines 34-61. The diagnostics printed in debug builds
  (for an incomplete grid, and for the solver taken) have no effect on the result and are
  left out.
\<close>

definition fit ::
  "Collaborators \<Rightarrow> Builder \<Rightarrow> DataTable \<Rightarrow> Smoothing \<Rightarrow> real
     \<Rightarrow> event list \<times> (error + BSpline)" where
  "fit env builder data smoothing alpha =
     (if tableDimX data \<noteq> dim_x builder then ([], Inl DimensionMismatch)
      else if tableDimY data \<noteq> dim_y builder then ([], Inl DimensionMismatch)
      else if alpha < 0 then ([], Inl InvalidParameter)
      else
        (case computeKnotVectors env builder data of
           Inl e \<Rightarrow> ([], Inl e)
         | Inr knotVectors \<Rightarrow>
             (let bspline = BSpline_ctor (dim_x builder) (dim_y builder) knotVectors
                              (degrees builder)
              in case computeControlPoints env bspline data smoothing alpha of
                   (evs, Inl e) \<Rightarrow> (evs, Inl e)
                 | (evs, Inr coefficients) \<Rightarrow>
                     (evs, Inr (setControlPoints bspline coefficients)))))"

subsection \<open>Stencils, strides and flattened indices\<close>

text \<open>
  The row-major flattening of a grid position \<open>m\<close> over the counts \<open>ns\<close>: the last
  dimension varies fastest, and the stride of dimension \<open>d\<close> is the product of the counts
  after \<open>d\<close>, so that \<open>flatIndex ns m\<close> is the sum of \<open>m ! j * stride ns j\<close>.
\<close>

fun flatIndex :: "nat list \<Rightarrow> nat list \<Rightarrow> nat" where
  "flatIndex (n # ns) (a # m) = a * prod_list ns + flatIndex ns m"
| "flatIndex _ _ = 0"

definition stride :: "nat list \<Rightarrow> nat \<Rightarrow> nat" where
  "stride ns d = prod_list (drop (Suc d) ns)"

definition gridPoint :: "nat list \<Rightarrow> nat list \<Rightarrow> bool" where
  "gridPoint ns m = list_all2 (\<lambda>a n. a < n) m ns"

text \<open>
  The insertions of row \<open>i\<close>, the stencil of the position \<open>m\<close> along dimension
  \<open>d\<close>, the number of rows the spec gives, and the number of nonzero coefficients of
  a column.
\<close>

definition rowEntries :: "SparseMatrix \<Rightarrow> nat \<Rightarrow> triplet list" where
  "rowEntries D i = filter (\<lambda>e. fst e = i) (elems D)"

definition stencilAt :: "nat list \<Rightarrow> nat \<Rightarrow> nat list \<Rightarrow> nat \<Rightarrow> triplet list" where
  "stencilAt ns d m i =
     [(i, flatIndex ns m, 1),
      (i, flatIndex ns m + stride ns d, - 2),
      (i, flatIndex ns m + 2 * stride ns d, 1)]"

definition rowCount :: "nat list \<Rightarrow> nat" where
  "rowCount ns = (\<Sum>d<length ns. (ns ! d - 2) * prod_list (take d ns @ drop (Suc d) ns))"

definition columnNonZeros :: "SparseMatrix \<Rightarrow> nat \<Rightarrow> nat" where
  "columnNonZeros D c = length (filter (\<lambda>i. coeff (matrix_of D) i c \<noteq> 0) [0..<rows D])"

text \<open>
  The products of the loops and the row counts of the blocks as natural numbers, without
  the wrap.
\<close>

definition leftProduct :: "nat list \<Rightarrow> nat \<Rightarrow> nat" where
  "leftProduct dims d = foldl (\<lambda>p k. p * dims ! k) 1 [0..<d]"

definition rightProduct :: "nat list \<Rightarrow> nat \<Rightarrow> nat \<Rightarrow> nat" where
  "rightProduct dims numVariables d = foldl (\<lambda>p k. p * dims ! k) 1 [d + 1..<numVariables]"

definition blockRowCounts :: "nat list \<Rightarrow> nat \<Rightarrow> nat list" where
  "blockRowCounts dims numVariables =
     map (\<lambda>i. foldl (\<lambda>prod j. if i = j then prod * (dims ! j - 2) else prod * dims ! j)
                 1 [0..<numVariables])
       [0..<numVariables]"

text \<open>
  The insertion loops as a list of stencils \<open>(k, leftProd)\<close> in the order of the
  source: \<open>emitRows ks\<close> is the effect on the row index and the matrix of inserting
  the stencils \<open>ks\<close> one row after the other, as long as no value wraps;
  \<open>intState\<close> is a state of the loops with a row index that is not negative.
\<close>

fun rowsFrom :: "nat \<Rightarrow> (nat \<times> nat) list \<Rightarrow> triplet list" where
  "rowsFrom i [] = []"
| "rowsFrom i (kL # ks) =
     [(i, fst kL, 1), (i, fst kL + snd kL, - 2), (i, fst kL + 2 * snd kL, 1)]
       @ rowsFrom (Suc i) ks"

definition emitRows :: "(nat \<times> nat) list \<Rightarrow> nat \<times> SparseMatrix \<Rightarrow> nat \<times> SparseMatrix" where
  "emitRows ks s = (fst s + length ks, (snd s)\<lparr>elems := elems (snd s) @ rowsFrom (fst s) ks\<rparr>)"

definition intState :: "nat \<times> SparseMatrix \<Rightarrow> int \<times> SparseMatrix" where
  "intState s = (int (fst s), snd s)"

text \<open>
  Inserting the stencils \<open>ks\<close> from row \<open>i\<close> on wraps no value: the row indices
  and the columns of the stencils are below \<open>2^31\<close>.
\<close>

definition inRange :: "(nat \<times> nat) list \<Rightarrow> nat \<Rightarrow> bool" where
  "inRange ks i \<longleftrightarrow> i + length ks < 2 ^ 31 \<and> list_all (\<lambda>e. fst e + 2 * snd e < 2 ^ 31) ks"

definition blockRows_stencils :: "nat list \<Rightarrow> nat \<Rightarrow> nat \<Rightarrow> nat \<Rightarrow> nat \<Rightarrow> (nat \<times> nat) list" where
  "blockRows_stencils dims d leftProd j l =
     (if d = 0 then [(j * leftProd * dims ! d + l, leftProd)]
      else map (\<lambda>n. (j * leftProd * dims ! d + l * leftProd + n, leftProd)) [0..<leftProd])"

definition block_stencils :: "nat list \<Rightarrow> nat \<Rightarrow> nat \<Rightarrow> (nat \<times> nat) list" where
  "block_stencils dims numVariables d =
     concat (map (\<lambda>j. concat (map (blockRows_stencils dims d (leftProduct dims d) j)
                                [0..<dims ! d - 2]))
               [0..<rightProduct dims numVariables d])"

definition all_stencils :: "nat list \<Rightarrow> nat \<Rightarrow> (nat \<times> nat) list" where
  "all_stencils dims numVariables = concat (map (block_stencils dims numVariables) [0..<numVariables])"

subsection \<open>Exact solvers and norms\<close>

text \<open>\<open>x\<close> solves the system \<open>(A, b)\<close>: \<open>A x = b\<close>, coefficient by coefficient.\<close>

definition solvesSystem :: "matrix \<Rightarrow> matrix \<Rightarrow> matrix \<Rightarrow> bool" where
  "solvesSystem A x b =
     (\<forall>i<nrows A. \<forall>j<ncols b. (\<Sum>k<ncols A. coeff A i k * coeff x k j) = coeff b i j)"

text \<open>
  Modelled from the spec: the solvers of \<^verbatim>\<open>linear_solvers.h\<close> are not among the
  sources. By the spec a solver solves the assembled system for the coefficients: the
  \<open>x\<close> it returns has the shape of a solution and solves the system, over the real
  numbers.
\<close>

definition exactSolver :: "(matrix \<Rightarrow> matrix \<Rightarrow> matrix option) \<Rightarrow> bool" where
  "exactSolver solve =
     (\<forall>A b x. solve A b = Some x \<longrightarrow>
        nrows x = ncols A \<and> ncols x = ncols b \<and> solvesSystem A x b)"

text \<open>
  The squared residual of \<open>x\<close> in the least-squares problem \<open>(B, b)\<close>, summed over the
  output dimensions.
\<close>

definition residual :: "matrix \<Rightarrow> matrix \<Rightarrow> matrix \<Rightarrow> real" where
  "residual B x b =
     (\<Sum>j<ncols b. \<Sum>s<nrows B. ((\<Sum>k<ncols B. coeff B s k * coeff x k j) - coeff b s j)\<^sup>2)"

text \<open>
  The L2 norm of a coefficient matrix (for one output dimension, of the coefficient
  vector) and of one of its columns.
\<close>

definition L2norm :: "matrix \<Rightarrow> real" where
  "L2norm x = sqrt (\<Sum>j<ncols x. \<Sum>i<nrows x. (coeff x i j)\<^sup>2)"

definition L2norm_column :: "matrix \<Rightarrow> nat \<Rightarrow> real" where
  "L2norm_column x j = sqrt (\<Sum>i<nrows x. (coeff x i j)\<^sup>2)"

subsection \<open>Concrete inputs\<close>

text \<open>
  Collaborators for the concrete instances below: every knot vector is clamped with no
  interior knot (the first value repeated \<open>degree + 1\<close> times, then the last one), the
  basis evaluation returns no entry, the sparse solver fails and the dense solver
  returns the right-hand side.
\<close>

definition stubCollaborators :: Collaborators where
  "stubCollaborators =
     \<lparr>knotVectorMovingAverage =
        (\<lambda>vals degree. replicate (degree + 1) (hd vals) @ replicate (degree + 1) (last vals)),
      knotVectorEquidistant =
        (\<lambda>vals degree n. replicate (degree + 1) (hd vals) @ replicate (degree + 1) (last vals)),
      knotVectorEquidistantNotClamped =
        (\<lambda>vals degree n. replicate (degree + 1) (hd vals) @ replicate (degree + 1) (last vals)),
      evalBasis = (\<lambda>bspline x. []),
      sparseLU_solve = (\<lambda>A b. None),
      denseQR_solve = (\<lambda>A b. Some b)\<rparr>"


text \<open>The same collaborators with a dense solver that fails.\<close>

definition failingCollaborators :: Collaborators where
  "failingCollaborators = stubCollaborators\<lparr>denseQR_solve := (\<lambda>A b. None)\<rparr>"

text \<open>
  A table of the two samples \<open>(0, 0)\<close> and \<open>(1, 1)\<close> in one input and one output
  dimension, and a builder of degree 1 for it; its knot vector \<open>[0, 0, 1, 1]\<close> gives 2
  basis functions, while the default degree 3 gives 4.
\<close>

definition twoSamples :: DataTable where
  "twoSamples =
     \<lparr>tableDimX = 1, tableDimY = 1,
      samples = [([0], [0]), ([1], [1])],
      getTableX = [[0, 1]]\<rparr>"

definition linearBuilder :: Builder where
  "linearBuilder = (Builder_ctor 1 1)\<lparr>degrees := [1]\<rparr>"

text \<open>
  A shell of one dimension with 9 knots and degree 3, hence 5 basis functions, and the
  matrix the spec gives for it.
\<close>

definition fiveShell :: BSpline where
  "fiveShell = BSpline_ctor 1 1 [[0, 0, 0, 0, 1, 2, 2, 2, 2]] [3]"

definition fiveMatrix :: SparseMatrix where
  "fiveMatrix =
     \<lparr>rows = 3, cols = 5,
      elems = [(0, 0, 1), (0, 1, - 2), (0, 2, 1),
               (1, 1, 1), (1, 2, - 2), (1, 3, 1),
               (2, 2, 1), (2, 3, - 2), (2, 4, 1)]\<rparr>"

text \<open>
  A shell of two dimensions with 3 and 4 basis functions (5 and 6 knots, degree 1), and
  the difference matrix of its 12 basis functions: six rows along the second dimension
  (stride 1), then four rows along the first (stride 4).
\<close>

definition gridShell :: BSpline where
  "gridShell = BSpline_ctor 2 1 [[0, 0, 1, 2, 2], [0, 0, 1, 2, 3, 3]] [1, 1]"

definition gridMatrix :: SparseMatrix where
  "gridMatrix =
     \<lparr>rows = 10, cols = 12,
      elems = [(0, 0, 1), (0, 1, - 2), (0, 2, 1),
               (1, 1, 1), (1, 2, - 2), (1, 3, 1),
               (2, 4, 1), (2, 5, - 2), (2, 6, 1),
               (3, 5, 1), (3, 6, - 2), (3, 7, 1),
               (4, 8, 1), (4, 9, - 2), (4, 10, 1),
               (5, 9, 1), (5, 10, - 2), (5, 11, 1),
               (6, 0, 1), (6, 4, - 2), (6, 8, 1),
               (7, 1, 1), (7, 5, - 2), (7, 9, 1),
               (8, 2, 1), (8, 6, - 2), (8, 10, 1),
               (9, 3, 1), (9, 7, - 2), (9, 11, 1)]\<rparr>"

text \<open>
  An exact solver for systems of one equation, a builder of degree 0, whose knot vector
  \<open>[0, 1]\<close> gives 1 basis function, and the collaborators for it: they solve with
  the exact solver, and the one basis function has the value 1 at every sample.
\<close>

definition scalarSolve :: "matrix \<Rightarrow> matrix \<Rightarrow> matrix option" where
  "scalarSolve A b =
     (if nrows A = 1 \<and> ncols A = 1 \<and> nrows b = 1 \<and> ncols b = 1 \<and> coeff A 0 0 \<noteq> 0
      then Some \<lparr>nrows = 1, ncols = 1,
                 coeff = (\<lambda>i j. if i = 0 \<and> j = 0 then coeff b 0 0 / coeff A 0 0 else 0)\<rparr>
      else None)"

definition exactCollaborators :: Collaborators where
  "exactCollaborators =
     stubCollaborators\<lparr>evalBasis := (\<lambda>bspline x. [(0, 1)]),
       sparseLU_solve := scalarSolve, denseQR_solve := scalarSolve\<rparr>"

definition constantBuilder :: Builder where
  "constantBuilder = (Builder_ctor 1 1)\<lparr>degrees := [0]\<rparr>"

section \<open>Properties\<close>

subsection \<open>The solve step\<close>

text \<open>
  C4. A system with fewer than 100 equations goes to the dense QR solver directly (so
  does one with exactly 99); with 100 equations or more the sparse LU solver is tried
  first and the dense QR solver runs only when the sparse one fails. The solve step
  fails with \<open>SolveFailure\<close> exactly when the dense solver was called and failed, and
  with no other error.
\<close>

theorem solveSystem_paths:
  "(nrows A < 100 \<longrightarrow>
      solveSystem env A b =
        ([Construct_Ad, Solve_DenseQR],
         case denseQR_solve env A b of None \<Rightarrow> Inl SolveFailure | Some x \<Rightarrow> Inr x))
   \<and> (100 \<le> nrows A \<longrightarrow>
      solveSystem env A b =
        (case sparseLU_solve env A b of
           Some x \<Rightarrow> ([Solve_SparseLU], Inr x)
         | None \<Rightarrow>
             ([Solve_SparseLU, Construct_Ad, Solve_DenseQR],
              case denseQR_solve env A b of None \<Rightarrow> Inl SolveFailure | Some x \<Rightarrow> Inr x)))
   \<and> (snd (solveSystem env A b) = Inl SolveFailure \<longleftrightarrow>
        Solve_DenseQR \<in> set (fst (solveSystem env A b)) \<and> denseQR_solve env A b = None)
   \<and> (\<forall>e. snd (solveSystem env A b) = Inl e \<longrightarrow> e = SolveFailure)"
  by (auto simp: solveSystem_def Let_def split: option.splits)

theorem solveSystem_paths_witness:
  "solveSystem stubCollaborators (setIdentity 99 99) (setIdentity 99 1) =
     ([Construct_Ad, Solve_DenseQR], Inr (setIdentity 99 1))
   \<and> solveSystem stubCollaborators (setIdentity 100 100) (setIdentity 100 1) =
     ([Solve_SparseLU, Construct_Ad, Solve_DenseQR], Inr (setIdentity 100 1))
   \<and> solveSystem failingCollaborators (setIdentity 99 99) (setIdentity 99 1) =
     ([Construct_Ad, Solve_DenseQR], Inl SolveFailure)"
  using solveSystem_paths [of "setIdentity 99 99" stubCollaborators "setIdentity 99 1"]
    solveSystem_paths [of "setIdentity 100 100" stubCollaborators "setIdentity 100 1"]
    solveSystem_paths [of "setIdentity 99 99" failingCollaborators "setIdentity 99 1"]
  by (simp add: setIdentity_def stubCollaborators_def failingCollaborators_def)

subsection \<open>Errors of the fit\<close>


lemma sequence_res_length: "sequence_res rs = Inr vs \<Longrightarrow> length vs = length rs"
  by (induction rs arbitrary: vs) (auto split: sum.splits)

lemma sequence_res_map_Inr: "sequence_res (map Inr xs) = Inr xs"
  by (induction xs) auto

lemma sequence_res_all_Inr:
  "(\<And>x. x \<in> set xs \<Longrightarrow> f x = Inr (g x)) \<Longrightarrow> sequence_res (map f xs) = Inr (map g xs)"
  by (induction xs) auto

lemma sequence_res_Inl:
  "sequence_res (map f xs) = Inl e \<Longrightarrow> \<exists>x\<in>set xs. f x = Inl e"
  by (induction xs) (auto split: sum.splits)

lemma sequence_res_Inr_nth:
  "sequence_res (map f xs) = Inr vs \<Longrightarrow> i < length xs \<Longrightarrow> f (xs ! i) = Inr (vs ! i)"
proof (induction xs arbitrary: vs i)
  case Nil
  then show ?case by simp
next
  case (Cons x xs)
  then show ?case by (cases i) (auto split: sum.splits)
qed

lemma pushed_dims:
  "n \<le> length xs \<Longrightarrow> sequence_res (map (at_vec xs) [0..<n]) = Inr (take n xs)"
proof -
  assume n: "n \<le> length xs"
  have "sequence_res (map (at_vec xs) [0..<n]) = Inr (map (\<lambda>i. xs ! i) [0..<n])"
    using n by (intro sequence_res_all_Inr) (simp add: at_vec_def)
  moreover have "map (\<lambda>i. xs ! i) [0..<n] = take n xs"
    using n by (simp add: list_eq_iff_nth_eq)
  ultimately show ?thesis by simp
qed

lemma difference_matrix_error:
  assumes "getDimX bs \<le> length (getNumBasisFunctionsPerVariable bs)"
  shows "getSecondOrderFiniteDifferenceMatrix bs = Inl e \<longleftrightarrow>
           e = InvalidConfiguration
           \<and> (\<exists>i<getDimX bs. getNumBasisFunctionsPerVariable bs ! i < 3)"
  using assms
  by (auto simp: getSecondOrderFiniteDifferenceMatrix_def Let_def pushed_dims list_ex_iff)

lemma difference_matrix_returns:
  assumes "getDimX bs = length ns" and "getNumBasisFunctionsPerVariable bs = ns"
    and "\<forall>n\<in>set ns. 3 \<le> n"
  shows "\<exists>D. getSecondOrderFiniteDifferenceMatrix bs = Inr D"
proof -
  have le: "getDimX bs \<le> length (getNumBasisFunctionsPerVariable bs)"
    using assms by simp
  have "\<not> (\<exists>i<getDimX bs. getNumBasisFunctionsPerVariable bs ! i < 3)"
    using assms by (metis nth_mem not_less)
  then show ?thesis
    using difference_matrix_error [OF le]
    by (cases "getSecondOrderFiniteDifferenceMatrix bs") auto
qed

lemma computeKnotVectors_Inr:
  assumes "computeKnotVectors env builder data = Inr kvs"
  shows "length kvs = dim_x builder" and "length (degrees builder) = dim_x builder"
  using assms
  by (auto simp: computeKnotVectors_def Let_def split: if_splits dest: sequence_res_length)

lemma computeKnotVectors_error:
  "computeKnotVectors env builder data = Inl e \<Longrightarrow> e = InconsistentConfiguration \<or> e = OutOfRange"
  by (auto simp: computeKnotVectors_def Let_def at_vec_def split: if_splits sum.splits
      dest!: sequence_res_Inl)

lemma shell_counts_length:
  assumes "computeKnotVectors env builder data = Inr kvs"
  shows "getDimX (BSpline_ctor (dim_x builder) dy kvs (degrees builder))
         = length (getNumBasisFunctionsPerVariable (BSpline_ctor (dim_x builder) dy kvs (degrees builder)))"
  using computeKnotVectors_Inr [OF assms] by (simp add: BSpline_ctor_def)


lemma assembleSystem_PSPLINE_Inl:
  "stackSamplePointValues data = Inr b \<Longrightarrow> getSecondOrderFiniteDifferenceMatrix bs = Inl e \<Longrightarrow>
   assembleSystem env bs data PSPLINE alpha =
     ([Construct_B, Construct_A, Construct_b, Construct_Bt, Construct_W], Inl e)"
  by (simp add: assembleSystem_def Let_def)

lemma assembleSystem_PSPLINE_Inr:
  "stackSamplePointValues data = Inr b \<Longrightarrow> getSecondOrderFiniteDifferenceMatrix bs = Inr Ds \<Longrightarrow>
   \<exists>A b'. assembleSystem env bs data PSPLINE alpha =
     ([Construct_B, Construct_A, Construct_b, Construct_Bt, Construct_W, Construct_D], Inr (A, b'))"
  by (simp add: assembleSystem_def Let_def)

lemma solveSystem_error: "snd (solveSystem env A b) = Inl e \<Longrightarrow> e = SolveFailure"
  by (auto simp: solveSystem_def Let_def split: option.splits if_splits)

lemma fit_reaches_computeControlPoints:
  assumes "tableDimX data = dim_x builder" "tableDimY data = dim_y builder" "0 \<le> alpha"
    "computeKnotVectors env builder data = Inr knotVectors"
  shows "fit env builder data smoothing alpha =
     (case computeControlPoints env
             (BSpline_ctor (dim_x builder) (dim_y builder) knotVectors (degrees builder))
             data smoothing alpha of
        (evs, Inl e) \<Rightarrow> (evs, Inl e)
      | (evs, Inr coefficients) \<Rightarrow>
          (evs, Inr (setControlPoints
             (BSpline_ctor (dim_x builder) (dim_y builder) knotVectors (degrees builder))
             coefficients)))"
  using assms by (simp add: fit_def Let_def)

text \<open>
  C3. Take a fit in mode \<open>PSPLINE\<close> that passes the checks of the dimensions and of
  \<open>alpha\<close>, builds its knot vectors and stacks its sample values. If some input
  dimension of the shell has fewer than 3 basis functions, the fit fails with
  \<open>InvalidConfiguration\<close>; if every dimension has at least 3, the fit does not fail
  with \<open>InvalidConfiguration\<close>.
\<close>

theorem fit_PSPLINE_three_basis_functions:
  assumes "tableDimX data = dim_x builder" and "tableDimY data = dim_y builder"
    and "0 \<le> alpha"
    and "computeKnotVectors env builder data = Inr knotVectors"
    and "stackSamplePointValues data = Inr b"
    and "bspline = BSpline_ctor (dim_x builder) (dim_y builder) knotVectors (degrees builder)"
  shows "((\<exists>n\<in>set (getNumBasisFunctionsPerVariable bspline). n < 3) \<longrightarrow>
            snd (fit env builder data PSPLINE alpha) = Inl InvalidConfiguration)
       \<and> ((\<forall>n\<in>set (getNumBasisFunctionsPerVariable bspline). 3 \<le> n) \<longrightarrow>
            snd (fit env builder data PSPLINE alpha) \<noteq> Inl InvalidConfiguration)"
proof -
  have len: "getDimX bspline = length (getNumBasisFunctionsPerVariable bspline)"
    using shell_counts_length [OF assms(4)] assms(6) by simp
  have fit_eq: "snd (fit env builder data PSPLINE alpha)
      = map_sum id (setControlPoints bspline) (snd (computeControlPoints env bspline data PSPLINE alpha))"
    unfolding fit_reaches_computeControlPoints [OF assms(1-4)] assms(6)
    by (simp split: prod.splits sum.splits)
  show ?thesis
  proof (intro conjI impI)
    assume "\<exists>n\<in>set (getNumBasisFunctionsPerVariable bspline). n < 3"
    then have "\<exists>i<getDimX bspline. getNumBasisFunctionsPerVariable bspline ! i < 3"
      unfolding len by (auto simp: in_set_conv_nth)
    then have "getSecondOrderFiniteDifferenceMatrix bspline = Inl InvalidConfiguration"
      using difference_matrix_error [of bspline InvalidConfiguration] len by simp
    then show "snd (fit env builder data PSPLINE alpha) = Inl InvalidConfiguration"
      unfolding fit_eq
      by (simp add: computeControlPoints_def assembleSystem_PSPLINE_Inl [OF assms(5)])
  next
    assume all: "\<forall>n\<in>set (getNumBasisFunctionsPerVariable bspline). 3 \<le> n"
    have "\<not> (\<exists>i<getDimX bspline. getNumBasisFunctionsPerVariable bspline ! i < 3)"
      using all unfolding len by (meson nth_mem not_less)
    then obtain Ds where Ds: "getSecondOrderFiniteDifferenceMatrix bspline = Inr Ds"
      using difference_matrix_error [of bspline] len
      by (cases "getSecondOrderFiniteDifferenceMatrix bspline") auto
    obtain A b' where "assembleSystem env bspline data PSPLINE alpha =
        ([Construct_B, Construct_A, Construct_b, Construct_Bt, Construct_W, Construct_D],
         Inr (A, b'))"
      using assembleSystem_PSPLINE_Inr [OF assms(5) Ds, of env alpha] by blast
    then have "snd (computeControlPoints env bspline data PSPLINE alpha)
                 = snd (solveSystem env A b')"
      by (simp add: computeControlPoints_def split: prod.splits)
    then show "snd (fit env builder data PSPLINE alpha) \<noteq> Inl InvalidConfiguration"
      unfolding fit_eq using solveSystem_error [of env A b']
      by (cases "snd (solveSystem env A b')") auto
  qed
qed

lemma stackSamplePointValues_twoSamples:
  "\<exists>b. stackSamplePointValues twoSamples = Inr b"
  by (simp add: stackSamplePointValues_def twoSamples_def at_vec_def getNumSamples_def)

lemma computeKnotVectors_linear:
  "computeKnotVectors stubCollaborators linearBuilder twoSamples = Inr [[0, 0, 1, 1]]"
  by (simp add: computeKnotVectors_def linearBuilder_def Builder_ctor_def twoSamples_def
      at_vec_def computeKnotVector_def stubCollaborators_def Let_def numeral_2_eq_2)

lemma computeKnotVectors_cubic:
  "computeKnotVectors stubCollaborators (Builder_ctor 1 1) twoSamples
     = Inr [[0, 0, 0, 0, 1, 1, 1, 1]]"
  by (simp add: computeKnotVectors_def Builder_ctor_def twoSamples_def getBSplineDegrees_def
      at_vec_def computeKnotVector_def stubCollaborators_def Let_def eval_nat_numeral)

theorem fit_PSPLINE_three_basis_functions_witness:
  "snd (fit stubCollaborators linearBuilder twoSamples PSPLINE 1) = Inl InvalidConfiguration
   \<and> snd (fit stubCollaborators (Builder_ctor 1 1) twoSamples PSPLINE 1) \<noteq> Inl InvalidConfiguration"
proof -
  have l: "tableDimX twoSamples = dim_x linearBuilder" "tableDimY twoSamples = dim_y linearBuilder"
    by (simp_all add: twoSamples_def linearBuilder_def Builder_ctor_def)
  have c: "tableDimX twoSamples = dim_x (Builder_ctor 1 1)" "tableDimY twoSamples = dim_y (Builder_ctor 1 1)"
    by (simp_all add: twoSamples_def Builder_ctor_def)
  have a: "(0::real) \<le> 1" by simp
  have small: "\<exists>n\<in>set (getNumBasisFunctionsPerVariable
      (BSpline_ctor (dim_x linearBuilder) (dim_y linearBuilder) [[0, 0, 1, 1]] (degrees linearBuilder))). n < 3"
    by (simp add: BSpline_ctor_def linearBuilder_def)
  have big: "\<forall>n\<in>set (getNumBasisFunctionsPerVariable
      (BSpline_ctor (dim_x (Builder_ctor 1 1)) (dim_y (Builder_ctor 1 1)) [[0, 0, 0, 0, 1, 1, 1, 1]]
         (degrees (Builder_ctor 1 1)))). 3 \<le> n"
    by (simp add: BSpline_ctor_def Builder_ctor_def getBSplineDegrees_def eval_nat_numeral)
  obtain b where b: "stackSamplePointValues twoSamples = Inr b"
    using stackSamplePointValues_twoSamples by blast
  show ?thesis
    using fit_PSPLINE_three_basis_functions [OF l a computeKnotVectors_linear b refl] small
      fit_PSPLINE_three_basis_functions [OF c a computeKnotVectors_cubic b refl] big
    by blast
qed


lemma insert_elem_shape [simp]:
  "rows (insert_elem M i k v) = rows M" "cols (insert_elem M i k v) = cols M"
  by (simp_all add: insert_elem_def)

lemma foldl_insert_shape:
  "rows (foldl (\<lambda>A (index, v). insert_elem A i index v) A xs) = rows A
   \<and> cols (foldl (\<lambda>A (index, v). insert_elem A i index v) A xs) = cols A"
  by (induction xs arbitrary: A) (auto split: prod.splits)

lemma foldl_samples_shape:
  "rows (foldl (\<lambda>A (i, smp). foldl (\<lambda>A (index, v). insert_elem A i index v) A (f smp)) A xs) = rows A
   \<and> cols (foldl (\<lambda>A (i, smp). foldl (\<lambda>A (index, v). insert_elem A i index v) A (f smp)) A xs) = cols A"
proof (induction xs arbitrary: A)
  case Nil
  then show ?case by simp
next
  case (Cons x xs)
  then show ?case by (cases x) (simp add: foldl_insert_shape)
qed

lemma computeBasisFunctionMatrix_shape:
  "rows (computeBasisFunctionMatrix env bspline data) = getNumSamples data"
  "cols (computeBasisFunctionMatrix env bspline data) = getNumBasisFunctions bspline"
  using foldl_samples_shape [of "\<lambda>smp. evalBasis env bspline (fst smp)"
      "SparseMatrix_ctor (getNumSamples data) (getNumBasisFunctions bspline)"
      "zip [0..<getNumSamples data] (samples data)"]
  by (simp_all add: computeBasisFunctionMatrix_def Let_def SparseMatrix_ctor_def)

lemma stackSamplePointValues_error:
  "stackSamplePointValues data = Inl e \<Longrightarrow> e = OutOfRange"
  by (auto simp: stackSamplePointValues_def at_vec_def split: sum.splits if_splits
      dest!: sequence_res_Inl)

lemma difference_matrix_error_kind:
  "getSecondOrderFiniteDifferenceMatrix bs = Inl e \<Longrightarrow> e = OutOfRange \<or> e = InvalidConfiguration"
  by (auto simp: getSecondOrderFiniteDifferenceMatrix_def Let_def at_vec_def
      split: sum.splits if_splits dest!: sequence_res_Inl)

lemma assembleSystem_cases:
  "assembleSystem env bs data smoothing alpha = (evs, r) \<Longrightarrow>
     (evs = [Construct_B, Construct_A] \<and> r = Inl OutOfRange)
   \<or> (smoothing = PSPLINE \<and> evs = [Construct_B, Construct_A, Construct_b, Construct_Bt, Construct_W]
        \<and> (\<exists>e. r = Inl e \<and> getSecondOrderFiniteDifferenceMatrix bs = Inl e))
   \<or> (Construct_B \<in> set evs \<and> (\<exists>A b. r = Inr (A, b)))"
  by (auto simp: assembleSystem_def Let_def split: sum.splits if_splits
      dest: stackSamplePointValues_error)

lemma solveSystem_cases:
  "solveSystem env A b = (evs, r) \<Longrightarrow>
     (\<exists>x. r = Inr x) \<or> (r = Inl SolveFailure \<and> evs \<noteq> [] \<and> last evs = Solve_DenseQR)"
  by (auto simp: solveSystem_def Let_def split: option.splits if_splits)

lemma computeControlPoints_cases:
  assumes "computeControlPoints env bs data smoothing alpha = (evs, r)"
  shows "(evs = [Construct_B, Construct_A] \<and> r = Inl OutOfRange)
   \<or> (smoothing = PSPLINE \<and> evs = [Construct_B, Construct_A, Construct_b, Construct_Bt, Construct_W]
        \<and> (\<exists>e. r = Inl e \<and> getSecondOrderFiniteDifferenceMatrix bs = Inl e))
   \<or> (Construct_B \<in> set evs \<and> r = Inl SolveFailure \<and> last evs = Solve_DenseQR)
   \<or> (Construct_B \<in> set evs \<and> (\<exists>x. r = Inr x))"
proof -
  obtain evs1 r1 where a: "assembleSystem env bs data smoothing alpha = (evs1, r1)"
    by (cases "assembleSystem env bs data smoothing alpha")
  show ?thesis
  proof (cases r1)
    case (Inl e)
    then have "evs = evs1" "r = Inl e"
      using assms a by (simp_all add: computeControlPoints_def)
    then show ?thesis using assembleSystem_cases [OF a] Inl by auto
  next
    case (Inr Ab)
    obtain A b where Ab: "Ab = (A, b)" by (cases Ab)
    obtain evs2 r2 where s: "solveSystem env A b = (evs2, r2)"
      by (cases "solveSystem env A b")
    have e: "evs = evs1 @ evs2" "r = r2"
      using assms a Inr Ab s by (simp_all add: computeControlPoints_def)
    have B: "Construct_B \<in> set evs1"
      using assembleSystem_cases [OF a] Inr by auto
    show ?thesis using solveSystem_cases [OF s] e B by auto
  qed
qed


lemma fit_cases:
  assumes "fit env builder data smoothing alpha = (evs, r)"
  shows "(evs = [] \<and> r = Inl DimensionMismatch
            \<and> (tableDimX data \<noteq> dim_x builder \<or> tableDimY data \<noteq> dim_y builder))
   \<or> (evs = [] \<and> r = Inl InvalidParameter \<and> alpha < 0)
   \<or> (evs = [] \<and> (\<exists>e. r = Inl e \<and> computeKnotVectors env builder data = Inl e))
   \<or> (\<exists>kvs. computeKnotVectors env builder data = Inr kvs
        \<and> tableDimX data = dim_x builder \<and> tableDimY data = dim_y builder \<and> 0 \<le> alpha
        \<and> (evs, map_sum id (\<lambda>bs. ()) r) =
            map_prod id (map_sum id (\<lambda>x. ()))
              (computeControlPoints env
                 (BSpline_ctor (dim_x builder) (dim_y builder) kvs (degrees builder))
                 data smoothing alpha))"
  using assms
  by (auto simp: fit_def Let_def split: if_splits sum.splits prod.splits)

text \<open>
  C5, as amended. \<open>DimensionMismatch\<close>, \<open>InvalidParameter\<close> and
  \<open>InconsistentConfiguration\<close> are raised before any matrix is constructed.
  \<open>InvalidConfiguration\<close> is raised in mode \<open>PSPLINE\<close> only, after the matrices
  \<open>B\<close>, \<open>A\<close>, \<open>b\<close>, \<open>Bt\<close> and \<open>W\<close> have been constructed and before \<open>D\<close>
  and the solve. \<open>SolveFailure\<close> is raised after the basis matrix has been
  constructed, by the dense solver as the last step. Once a matrix has been constructed,
  the fit fails with \<open>InvalidConfiguration\<close>, \<open>SolveFailure\<close> or the out-of-range
  access to a sample's output vector, and with no other error.
\<close>

theorem fit_errors_and_construction:
  "(snd (fit env builder data smoothing alpha) = Inl e
      \<and> e \<in> {DimensionMismatch, InvalidParameter, InconsistentConfiguration}
      \<longrightarrow> fst (fit env builder data smoothing alpha) = [])
   \<and> (snd (fit env builder data smoothing alpha) = Inl InvalidConfiguration
      \<longrightarrow> smoothing = PSPLINE
          \<and> fst (fit env builder data smoothing alpha) =
               [Construct_B, Construct_A, Construct_b, Construct_Bt, Construct_W])
   \<and> (snd (fit env builder data smoothing alpha) = Inl SolveFailure
      \<longrightarrow> Construct_B \<in> set (fst (fit env builder data smoothing alpha))
          \<and> last (fst (fit env builder data smoothing alpha)) = Solve_DenseQR)
   \<and> (snd (fit env builder data smoothing alpha) = Inl e
      \<and> fst (fit env builder data smoothing alpha) \<noteq> []
      \<longrightarrow> e \<in> {InvalidConfiguration, SolveFailure, OutOfRange})"
proof -
  obtain evs r where f: "fit env builder data smoothing alpha = (evs, r)"
    by (cases "fit env builder data smoothing alpha")
  note c = fit_cases [OF f]
  have k: "\<And>e'. computeKnotVectors env builder data = Inl e' \<Longrightarrow>
             e' = InconsistentConfiguration \<or> e' = OutOfRange"
    by (rule computeKnotVectors_error)
  have m: "\<And>kvs evs' r'. computeControlPoints env
             (BSpline_ctor (dim_x builder) (dim_y builder) kvs (degrees builder))
             data smoothing alpha = (evs', r') \<Longrightarrow>
     (evs' = [Construct_B, Construct_A] \<and> r' = Inl OutOfRange)
   \<or> (smoothing = PSPLINE \<and> evs' = [Construct_B, Construct_A, Construct_b, Construct_Bt, Construct_W]
        \<and> (\<exists>e. r' = Inl e \<and> (e = OutOfRange \<or> e = InvalidConfiguration)))
   \<or> (Construct_B \<in> set evs' \<and> r' = Inl SolveFailure \<and> last evs' = Solve_DenseQR)
   \<or> (Construct_B \<in> set evs' \<and> (\<exists>x. r' = Inr x))"
    using computeControlPoints_cases difference_matrix_error_kind by blast
  from c show ?thesis
  proof (elim disjE exE conjE)
    fix kvs
    assume kv: "computeKnotVectors env builder data = Inr kvs"
      and eq: "(evs, map_sum id (\<lambda>bs. ()) r) =
            map_prod id (map_sum id (\<lambda>x. ()))
              (computeControlPoints env
                 (BSpline_ctor (dim_x builder) (dim_y builder) kvs (degrees builder))
                 data smoothing alpha)"
    obtain evs' r' where cc: "computeControlPoints env
                 (BSpline_ctor (dim_x builder) (dim_y builder) kvs (degrees builder))
                 data smoothing alpha = (evs', r')"
      by (cases "computeControlPoints env
                 (BSpline_ctor (dim_x builder) (dim_y builder) kvs (degrees builder))
                 data smoothing alpha")
    have e1: "evs = evs'" and e2: "map_sum id (\<lambda>bs. ()) r = map_sum id (\<lambda>x. ()) r'"
      using eq cc by simp_all
    from m [OF cc] show ?thesis
      unfolding f using e1 e2
      by (cases r; cases r') auto
  qed (use f k in auto)
qed

lemma fit_linear_PSPLINE:
  "fit stubCollaborators linearBuilder twoSamples PSPLINE 1 =
     ([Construct_B, Construct_A, Construct_b, Construct_Bt, Construct_W],
      Inl InvalidConfiguration)"
proof -
  have l: "tableDimX twoSamples = dim_x linearBuilder" "tableDimY twoSamples = dim_y linearBuilder"
    by (simp_all add: twoSamples_def linearBuilder_def Builder_ctor_def)
  obtain b where b: "stackSamplePointValues twoSamples = Inr b"
    using stackSamplePointValues_twoSamples by blast
  have d: "getSecondOrderFiniteDifferenceMatrix
      (BSpline_ctor (dim_x linearBuilder) (dim_y linearBuilder) [[0, 0, 1, 1]] (degrees linearBuilder))
      = Inl InvalidConfiguration"
    by (simp add: getSecondOrderFiniteDifferenceMatrix_def BSpline_ctor_def linearBuilder_def
        Builder_ctor_def at_vec_def Let_def)
  have a: "(0::real) \<le> 1" by simp
  show ?thesis
    unfolding fit_reaches_computeControlPoints [OF l a computeKnotVectors_linear]
    by (simp add: computeControlPoints_def assembleSystem_PSPLINE_Inl [OF b d])
qed

lemma fit_cubic_failing:
  "snd (fit failingCollaborators (Builder_ctor 1 1) twoSamples NONE 0) = Inl SolveFailure"
proof -
  obtain b where b: "stackSamplePointValues twoSamples = Inr b"
    using stackSamplePointValues_twoSamples by blast
  have n: "getNumSamples twoSamples = 2" by (simp add: getNumSamples_def twoSamples_def)
  have a: "(0::real) \<le> 0" by simp
  have k: "computeKnotVectors failingCollaborators (Builder_ctor 1 1) twoSamples
             = Inr [[0, 0, 0, 0, 1, 1, 1, 1]]"
    by (simp add: computeKnotVectors_def Builder_ctor_def twoSamples_def getBSplineDegrees_def
        at_vec_def computeKnotVector_def failingCollaborators_def stubCollaborators_def Let_def
        eval_nat_numeral)
  have c: "tableDimX twoSamples = dim_x (Builder_ctor 1 1)"
    "tableDimY twoSamples = dim_y (Builder_ctor 1 1)"
    by (simp_all add: twoSamples_def Builder_ctor_def)
  show ?thesis
    unfolding fit_reaches_computeControlPoints [OF c a k]
    by (simp add: computeControlPoints_def assembleSystem_def b Let_def solveSystem_def
        matrix_of_def computeBasisFunctionMatrix_shape n failingCollaborators_def)
qed

theorem fit_errors_and_construction_witness:
  "fst (fit stubCollaborators linearBuilder twoSamples PSPLINE (- 1)) = []
   \<and> fst (fit stubCollaborators linearBuilder twoSamples PSPLINE 1) =
       [Construct_B, Construct_A, Construct_b, Construct_Bt, Construct_W]
   \<and> Construct_B \<in> set (fst (fit failingCollaborators (Builder_ctor 1 1) twoSamples NONE 0))
   \<and> last (fst (fit failingCollaborators (Builder_ctor 1 1) twoSamples NONE 0)) = Solve_DenseQR"
proof -
  have 1: "snd (fit stubCollaborators linearBuilder twoSamples PSPLINE (- 1)) = Inl InvalidParameter"
    by (simp add: fit_def twoSamples_def linearBuilder_def Builder_ctor_def)
  have 2: "snd (fit stubCollaborators linearBuilder twoSamples PSPLINE 1) = Inl InvalidConfiguration"
    by (simp add: fit_linear_PSPLINE)
  show ?thesis
    using fit_errors_and_construction [of stubCollaborators linearBuilder twoSamples PSPLINE "- 1"
        InvalidParameter] 1
      fit_errors_and_construction [of stubCollaborators linearBuilder twoSamples PSPLINE 1
        InvalidConfiguration] 2
      fit_errors_and_construction [of failingCollaborators "Builder_ctor 1 1" twoSamples NONE 0
        SolveFailure] fit_cubic_failing
    by simp
qed

text \<open>
  C5 as stated fails: in mode \<open>PSPLINE\<close> with a dimension of 2 basis functions,
  \<open>InvalidConfiguration\<close> is raised after five matrices have been constructed.
\<close>

theorem fit_validation_counterexample:
  "fit stubCollaborators linearBuilder twoSamples PSPLINE 1 =
     ([Construct_B, Construct_A, Construct_b, Construct_Bt, Construct_W],
      Inl InvalidConfiguration)"
  by (rule fit_linear_PSPLINE)


lemma fit_PSPLINE_small:
  assumes "tableDimX data = dim_x builder" and "tableDimY data = dim_y builder"
    and "0 \<le> alpha"
    and "computeKnotVectors env builder data = Inr knotVectors"
    and "stackSamplePointValues data = Inr b"
    and "bspline = BSpline_ctor (dim_x builder) (dim_y builder) knotVectors (degrees builder)"
    and "\<exists>n\<in>set (getNumBasisFunctionsPerVariable bspline). n < 3"
  shows "fit env builder data PSPLINE alpha =
           ([Construct_B, Construct_A, Construct_b, Construct_Bt, Construct_W],
            Inl InvalidConfiguration)"
proof -
  have len: "getDimX bspline = length (getNumBasisFunctionsPerVariable bspline)"
    using shell_counts_length [OF assms(4)] assms(6) by simp
  have "\<exists>i<getDimX bspline. getNumBasisFunctionsPerVariable bspline ! i < 3"
    using assms(7) unfolding len by (auto simp: in_set_conv_nth)
  then have "getSecondOrderFiniteDifferenceMatrix bspline = Inl InvalidConfiguration"
    using difference_matrix_error [of bspline InvalidConfiguration] len by simp
  then show ?thesis
    unfolding fit_reaches_computeControlPoints [OF assms(1-4)] assms(6)
    by (simp add: computeControlPoints_def assembleSystem_PSPLINE_Inl [OF assms(5)])
qed

lemma fit_PSPLINE_big:
  assumes "tableDimX data = dim_x builder" and "tableDimY data = dim_y builder"
    and "0 \<le> alpha"
    and "computeKnotVectors env builder data = Inr knotVectors"
    and "stackSamplePointValues data = Inr b"
    and "bspline = BSpline_ctor (dim_x builder) (dim_y builder) knotVectors (degrees builder)"
    and "\<forall>n\<in>set (getNumBasisFunctionsPerVariable bspline). 3 \<le> n"
  shows "\<exists>evs r. fit env builder data PSPLINE alpha =
           ([Construct_B, Construct_A, Construct_b, Construct_Bt, Construct_W, Construct_D] @ evs, r)
           \<and> r \<noteq> Inl InvalidConfiguration"
proof -
  have len: "getDimX bspline = length (getNumBasisFunctionsPerVariable bspline)"
    using shell_counts_length [OF assms(4)] assms(6) by simp
  have "\<not> (\<exists>i<getDimX bspline. getNumBasisFunctionsPerVariable bspline ! i < 3)"
    using assms(7) unfolding len by (meson nth_mem not_less)
  then obtain Ds where Ds: "getSecondOrderFiniteDifferenceMatrix bspline = Inr Ds"
    using difference_matrix_error [of bspline] len
    by (cases "getSecondOrderFiniteDifferenceMatrix bspline") auto
  obtain A b' where a: "assembleSystem env bspline data PSPLINE alpha =
        ([Construct_B, Construct_A, Construct_b, Construct_Bt, Construct_W, Construct_D],
         Inr (A, b'))"
    using assembleSystem_PSPLINE_Inr [OF assms(5) Ds, of env alpha] by blast
  obtain evs2 r2 where s: "solveSystem env A b' = (evs2, r2)"
    by (cases "solveSystem env A b'")
  have r2: "r2 \<noteq> Inl InvalidConfiguration"
    using solveSystem_error [of env A b'] s by auto
  show ?thesis
    unfolding fit_reaches_computeControlPoints [OF assms(1-4)] assms(6) [symmetric]
    using r2 by (cases r2) (simp_all add: computeControlPoints_def a s)
qed

text \<open>
  C10. In mode \<open>PSPLINE\<close> the check of three basis functions per dimension does not
  depend on \<open>alpha\<close>: with a dimension of fewer than 3 basis functions the fit with
  \<open>alpha = 0\<close> fails with \<open>InvalidConfiguration\<close>, as it does for every other
  \<open>alpha \<ge> 0\<close>; with at least 3 in every dimension the difference matrix \<open>D\<close> is
  constructed, for \<open>alpha = 0\<close> as for every other \<open>alpha \<ge> 0\<close>.
\<close>

theorem fit_PSPLINE_check_regardless_of_alpha:
  assumes "tableDimX data = dim_x builder" and "tableDimY data = dim_y builder"
    and "0 \<le> alpha"
    and "computeKnotVectors env builder data = Inr knotVectors"
    and "stackSamplePointValues data = Inr b"
    and "bspline = BSpline_ctor (dim_x builder) (dim_y builder) knotVectors (degrees builder)"
  shows "((\<exists>n\<in>set (getNumBasisFunctionsPerVariable bspline). n < 3) \<longrightarrow>
            fit env builder data PSPLINE 0 =
              ([Construct_B, Construct_A, Construct_b, Construct_Bt, Construct_W],
               Inl InvalidConfiguration)
            \<and> fit env builder data PSPLINE alpha = fit env builder data PSPLINE 0)
       \<and> ((\<forall>n\<in>set (getNumBasisFunctionsPerVariable bspline). 3 \<le> n) \<longrightarrow>
            Construct_D \<in> set (fst (fit env builder data PSPLINE 0))
            \<and> Construct_D \<in> set (fst (fit env builder data PSPLINE alpha)))"
proof (intro conjI impI)
  assume small: "\<exists>n\<in>set (getNumBasisFunctionsPerVariable bspline). n < 3"
  show z: "fit env builder data PSPLINE 0 =
      ([Construct_B, Construct_A, Construct_b, Construct_Bt, Construct_W], Inl InvalidConfiguration)"
    using fit_PSPLINE_small [OF assms(1,2) _ assms(4-6) small, of 0] by simp
  show "fit env builder data PSPLINE alpha = fit env builder data PSPLINE 0"
    unfolding z by (rule fit_PSPLINE_small [OF assms small])
next
  assume big: "\<forall>n\<in>set (getNumBasisFunctionsPerVariable bspline). 3 \<le> n"
  show "Construct_D \<in> set (fst (fit env builder data PSPLINE 0))"
    using fit_PSPLINE_big [OF assms(1,2) _ assms(4-6) big, of 0] by auto
  show "Construct_D \<in> set (fst (fit env builder data PSPLINE alpha))"
    using fit_PSPLINE_big [OF assms big] by auto
qed

lemma twoSamples_linear_dims:
  "tableDimX twoSamples = dim_x linearBuilder" "tableDimY twoSamples = dim_y linearBuilder"
  by (simp_all add: twoSamples_def linearBuilder_def Builder_ctor_def)

lemma twoSamples_cubic_dims:
  "tableDimX twoSamples = dim_x (Builder_ctor 1 1)" "tableDimY twoSamples = dim_y (Builder_ctor 1 1)"
  by (simp_all add: twoSamples_def Builder_ctor_def)

lemma linear_shell_small:
  "\<exists>n\<in>set (getNumBasisFunctionsPerVariable
      (BSpline_ctor (dim_x linearBuilder) (dim_y linearBuilder) [[0, 0, 1, 1]]
         (degrees linearBuilder))). n < 3"
  by (simp add: BSpline_ctor_def linearBuilder_def)

lemma cubic_shell_big:
  "\<forall>n\<in>set (getNumBasisFunctionsPerVariable
      (BSpline_ctor (dim_x (Builder_ctor 1 1)) (dim_y (Builder_ctor 1 1))
         [[0, 0, 0, 0, 1, 1, 1, 1]] (degrees (Builder_ctor 1 1)))). 3 \<le> n"
  by (simp add: BSpline_ctor_def Builder_ctor_def getBSplineDegrees_def eval_nat_numeral)

theorem fit_PSPLINE_check_regardless_of_alpha_witness:
  "fit stubCollaborators linearBuilder twoSamples PSPLINE 0 =
     ([Construct_B, Construct_A, Construct_b, Construct_Bt, Construct_W], Inl InvalidConfiguration)
   \<and> Construct_D \<in> set (fst (fit stubCollaborators (Builder_ctor 1 1) twoSamples PSPLINE 0))"
proof -
  have a: "(0::real) \<le> 0" by simp
  obtain b where b: "stackSamplePointValues twoSamples = Inr b"
    using stackSamplePointValues_twoSamples by blast
  show ?thesis
    using fit_PSPLINE_check_regardless_of_alpha [OF twoSamples_linear_dims a
        computeKnotVectors_linear b refl] linear_shell_small
      fit_PSPLINE_check_regardless_of_alpha [OF twoSamples_cubic_dims a
        computeKnotVectors_cubic b refl] cubic_shell_big
    by blast
qed


lemma computeKnotVectors_default:
  assumes "computeKnotVectors env (Builder_ctor dx dy) data = Inr kvs"
  shows "kvs = map (\<lambda>i. knotVectorMovingAverage env (getTableX data ! i) 3) [0..<dx]"
proof (rule nth_equalityI)
  have len: "length kvs = dx"
    using computeKnotVectors_Inr(1) [OF assms] by (simp add: Builder_ctor_def)
  then show "length kvs = length (map (\<lambda>i. knotVectorMovingAverage env (getTableX data ! i) 3) [0..<dx])"
    by simp
  fix i assume "i < length kvs"
  then have i: "i < dx" using len by simp
  have dim: "dim_x (Builder_ctor dx dy) = dx" by (simp add: Builder_ctor_def)
  let ?f = "\<lambda>i. case at_vec (getTableX data) i of
                        Inl e \<Rightarrow> Inl e
                      | Inr g \<Rightarrow>
                          (case at_vec (degrees (Builder_ctor dx dy)) i of
                             Inl e \<Rightarrow> Inl e
                           | Inr deg \<Rightarrow>
                               (case at_vec (numBasisFunctions (Builder_ctor dx dy)) i of
                                  Inl e \<Rightarrow> Inl e
                                | Inr nb \<Rightarrow> Inr (computeKnotVector env (Builder_ctor dx dy) g deg nb)))"
  have "sequence_res (map ?f [0..<dx]) = Inr kvs"
    using assms by (simp add: computeKnotVectors_def Let_def dim split: if_splits)
  then have "?f ([0..<dx] ! i) = Inr (kvs ! i)"
    by (rule sequence_res_Inr_nth) (use i in simp)
  moreover have "[0..<dx] ! i = i" using i by simp
  ultimately have "?f i = Inr (kvs ! i)" by (simp only:)
  then have "kvs ! i = knotVectorMovingAverage env (getTableX data ! i) 3"
    using i
    by (auto simp: at_vec_def Builder_ctor_def getBSplineDegrees_def computeKnotVector_def
        split: sum.splits if_splits)
  then show "kvs ! i = map (\<lambda>i. knotVectorMovingAverage env (getTableX data ! i) 3) [0..<dx] ! i"
    using i by simp
qed

text \<open>
  C8, as amended. A builder constructed without setting degrees has degree 3 in every
  input dimension, whatever the data table; a fit that returns has used this degree for
  every knot vector and for the shell.
\<close>

theorem default_degrees_fixed:
  "degrees (Builder_ctor dx dy) = replicate dx 3
   \<and> (\<forall>bs. snd (fit env (Builder_ctor dx dy) data smoothing alpha) = Inr bs \<longrightarrow>
         getDegrees bs = replicate dx 3
         \<and> getKnotVectors bs =
             map (\<lambda>i. knotVectorMovingAverage env (getTableX data ! i) 3) [0..<dx])"
proof (intro conjI allI impI)
  show d: "degrees (Builder_ctor dx dy) = replicate dx 3"
    by (simp add: Builder_ctor_def getBSplineDegrees_def)
  fix bs assume r: "snd (fit env (Builder_ctor dx dy) data smoothing alpha) = Inr bs"
  then obtain kvs coefficients where kv: "computeKnotVectors env (Builder_ctor dx dy) data = Inr kvs"
    and bs: "bs = setControlPoints (BSpline_ctor (dim_x (Builder_ctor dx dy)) (dim_y (Builder_ctor dx dy))
                kvs (degrees (Builder_ctor dx dy))) coefficients"
    by (auto simp: fit_def Let_def split: if_splits sum.splits prod.splits)
  show "getDegrees bs = replicate dx 3"
    unfolding bs d by (simp add: setControlPoints_def BSpline_ctor_def)
  show "getKnotVectors bs = map (\<lambda>i. knotVectorMovingAverage env (getTableX data ! i) 3) [0..<dx]"
    unfolding bs using computeKnotVectors_default [OF kv]
    by (simp add: setControlPoints_def BSpline_ctor_def)
qed

lemma fit_cubic_NONE:
  "\<exists>bs. snd (fit stubCollaborators (Builder_ctor 1 1) twoSamples NONE 0) = Inr bs"
proof -
  obtain b where b: "stackSamplePointValues twoSamples = Inr b"
    using stackSamplePointValues_twoSamples by blast
  have n: "getNumSamples twoSamples = 2" by (simp add: getNumSamples_def twoSamples_def)
  have a: "(0::real) \<le> 0" by simp
  show ?thesis
    unfolding fit_reaches_computeControlPoints [OF twoSamples_cubic_dims a computeKnotVectors_cubic]
    by (simp add: computeControlPoints_def assembleSystem_def b Let_def solveSystem_def
        matrix_of_def computeBasisFunctionMatrix_shape n stubCollaborators_def)
qed

theorem default_degrees_fixed_witness:
  "\<exists>bs. snd (fit stubCollaborators (Builder_ctor 1 1) twoSamples NONE 0) = Inr bs
      \<and> getDegrees bs = [3] \<and> getKnotVectors bs = [[0, 0, 0, 0, 1, 1, 1, 1]]"
proof -
  obtain bs where bs: "snd (fit stubCollaborators (Builder_ctor 1 1) twoSamples NONE 0) = Inr bs"
    using fit_cubic_NONE by blast
  have "getDegrees bs = replicate 1 3
         \<and> getKnotVectors bs =
             map (\<lambda>i. knotVectorMovingAverage stubCollaborators (getTableX twoSamples ! i) 3) [0..<1]"
    using default_degrees_fixed [of 1 1 stubCollaborators twoSamples NONE 0] bs by blast
  then have "getDegrees bs = [3] \<and> getKnotVectors bs = [[0, 0, 0, 0, 1, 1, 1, 1]]"
    by (simp add: stubCollaborators_def twoSamples_def eval_nat_numeral)
  with bs show ?thesis by blast
qed

text \<open>
  C8 as stated fails: on a table of 2 samples the fit uses degree 3, not
  \<open>min 3 (2 - 1) = 1\<close>.
\<close>

theorem default_degrees_counterexample:
  "getNumSamples twoSamples = 2
   \<and> degrees (Builder_ctor 1 1) = [3]
   \<and> map_sum id getDegrees (snd (fit stubCollaborators (Builder_ctor 1 1) twoSamples NONE 0))
       = Inr [3]
   \<and> [3] \<noteq> replicate 1 (min 3 (getNumSamples twoSamples - 1))"
proof -
  obtain bs where bs: "snd (fit stubCollaborators (Builder_ctor 1 1) twoSamples NONE 0) = Inr bs"
    using fit_cubic_NONE by blast
  then obtain kvs coefficients where
    "bs = setControlPoints (BSpline_ctor (dim_x (Builder_ctor 1 1)) (dim_y (Builder_ctor 1 1))
                kvs (degrees (Builder_ctor 1 1))) coefficients"
    by (auto simp: fit_def Let_def split: if_splits sum.splits prod.splits)
  then have "getDegrees bs = [3]"
    by (simp add: setControlPoints_def BSpline_ctor_def Builder_ctor_def getBSplineDegrees_def)
  then show ?thesis
    using bs
    by (simp add: getNumSamples_def twoSamples_def Builder_ctor_def getBSplineDegrees_def)
qed

subsection \<open>The second-order finite-difference matrix\<close>

lemma rowsFrom_append:
  "rowsFrom i (ks1 @ ks2) = rowsFrom i ks1 @ rowsFrom (i + length ks1) ks2"
  by (induction ks1 arbitrary: i) auto

lemma emitRows_Nil [simp]: "emitRows [] s = s"
  by (simp add: emitRows_def)

lemma emitRows_append: "emitRows ks2 (emitRows ks1 s) = emitRows (ks1 @ ks2) s"
  by (simp add: emitRows_def rowsFrom_append add.assoc)

lemma foldl_times: "foldl (\<lambda>p k. p * g k) (a::nat) xs = a * prod_list (map g xs)"
  by (induction xs arbitrary: a) (simp_all add: mult.assoc)

lemma map_nth_upt_take: "d \<le> length xs \<Longrightarrow> map (\<lambda>k. xs ! k) [0..<d] = take d xs"
  by (simp add: list_eq_iff_nth_eq)

lemma map_nth_upt_drop: "map (\<lambda>k. xs ! k) [d..<length xs] = drop d xs"
  by (simp add: list_eq_iff_nth_eq)

lemma leftProduct_eq: "d \<le> length dims \<Longrightarrow> leftProduct dims d = prod_list (take d dims)"
  by (simp add: leftProduct_def foldl_times map_nth_upt_take)

lemma rightProduct_eq: "rightProduct dims (length dims) d = prod_list (drop (Suc d) dims)"
  by (simp add: rightProduct_def foldl_times map_nth_upt_drop)

lemma loop_products:
  assumes "d < length dims"
  shows "leftProduct dims d * dims ! d * rightProduct dims (length dims) d = prod_list dims"
proof -
  have "prod_list (take d dims @ dims ! d # drop (Suc d) dims) = prod_list dims"
    using id_take_nth_drop [OF assms] by simp
  then show ?thesis
    using assms by (simp add: leftProduct_eq rightProduct_eq mult.assoc)
qed

lemma blockRowCounts_nth:
  assumes "i < length dims"
  shows "blockRowCounts dims (length dims) ! i
           = prod_list (take i dims) * (dims ! i - 2) * prod_list (drop (Suc i) dims)"
proof -
  let ?g = "\<lambda>j. if i = j then dims ! j - 2 else dims ! j"
  have "[0..<i + (length dims - i)] = [0..<i] @ [i..<i + (length dims - i)]"
    by (rule upt_add_eq_append) simp
  then have split: "[0..<length dims] = [0..<i] @ [i] @ [Suc i..<length dims]"
    using assms by (simp add: upt_conv_Cons)
  have l: "map ?g [0..<i] = take i dims"
    using assms by (simp add: list_eq_iff_nth_eq)
  have r: "map ?g [Suc i..<length dims] = drop (Suc i) dims"
    by (simp add: list_eq_iff_nth_eq)
  have "prod_list (map ?g [0..<length dims])
          = prod_list (map ?g [0..<i]) * ?g i * prod_list (map ?g [Suc i..<length dims])"
    by (subst split) (simp add: mult.assoc)
  then have "prod_list (map ?g [0..<length dims])
          = prod_list (take i dims) * (dims ! i - 2) * prod_list (drop (Suc i) dims)"
    unfolding l r by simp
  moreover have "(\<lambda>prod j. if i = j then prod * (dims ! j - 2) else prod * dims ! j)
                   = (\<lambda>prod j. prod * ?g j)"
    by (intro ext) simp
  then have "blockRowCounts dims (length dims) ! i = prod_list (map ?g [0..<length dims])"
    using assms by (simp add: blockRowCounts_def foldl_times)
  ultimately show ?thesis by simp
qed

lemma length_concat_const:
  "(\<And>x. x \<in> set xs \<Longrightarrow> length (f x) = c) \<Longrightarrow> length (concat (map f xs)) = length xs * c"
  by (induction xs) simp_all

lemma block_stencils_eq:
  assumes "d < length dims"
  shows "block_stencils dims (length dims) d
     = concat (map (\<lambda>j. concat (map (\<lambda>l. map (\<lambda>c. ((j * dims ! d + l) * prod_list (take d dims) + c,
                                                       prod_list (take d dims)))
                                               [0..<prod_list (take d dims)])
                                    [0..<dims ! d - 2]))
                 [0..<prod_list (drop (Suc d) dims)])"
proof -
  let ?L = "prod_list (take d dims)"
  have "blockRows_stencils dims d ?L j
          = (\<lambda>l. map (\<lambda>c. ((j * dims ! d + l) * ?L + c, ?L)) [0..<?L])" for j
  proof (rule ext, cases "d = 0")
    case True
    then show "blockRows_stencils dims d ?L j l
          = map (\<lambda>c. ((j * dims ! d + l) * ?L + c, ?L)) [0..<?L]" for l
      by (simp add: blockRows_stencils_def)
  next
    case False
    then show "blockRows_stencils dims d ?L j l
          = map (\<lambda>c. ((j * dims ! d + l) * ?L + c, ?L)) [0..<?L]" for l
      by (simp add: blockRows_stencils_def algebra_simps)
  qed
  then show ?thesis
    using assms
    by (simp add: block_stencils_def leftProduct_eq rightProduct_eq)
qed

lemma length_block_stencils:
  assumes "d < length dims"
  shows "length (block_stencils dims (length dims) d)
           = prod_list (take d dims) * (dims ! d - 2) * prod_list (drop (Suc d) dims)"
  unfolding block_stencils_eq [OF assms]
  by (simp add: length_concat_const [where c = "(dims ! d - 2) * prod_list (take d dims)"]
      length_concat_const [where c = "prod_list (take d dims)"] mult_ac)

lemma length_all_stencils:
  "length (all_stencils dims (length dims)) = sum_list (blockRowCounts dims (length dims))"
proof -
  have "map (\<lambda>d. length (block_stencils dims (length dims) d)) [0..<length dims]
          = blockRowCounts dims (length dims)"
    by (rule nth_equalityI)
      (simp_all add: blockRowCounts_def [of dims "length dims", THEN arg_cong [of _ _ length]]
        length_block_stencils blockRowCounts_nth)
  then show ?thesis
    by (simp add: all_stencils_def length_concat comp_def)
qed

lemma flatIndex_append:
  "length ns1 = length m1 \<Longrightarrow>
   flatIndex (ns1 @ ns2) (m1 @ m2) = flatIndex ns1 m1 * prod_list ns2 + flatIndex ns2 m2"
  by (induction ns1 m1 rule: list_induct2) (simp_all add: algebra_simps)

lemma flatIndex_less: "gridPoint ns m \<Longrightarrow> flatIndex ns m < prod_list ns"
  unfolding gridPoint_def
proof (induction m ns rule: list_all2_induct)
  case Nil
  then show ?case by simp
next
  case (Cons a m n ns)
  have "a * prod_list ns + flatIndex ns m < a * prod_list ns + prod_list ns"
    using Cons.IH by simp
  also have "\<dots> = Suc a * prod_list ns" by simp
  also have "\<dots> \<le> n * prod_list ns"
    using Cons.hyps(1) by (intro mult_le_mono1) simp
  finally show ?case by simp
qed

lemma flatIndex_onto: "x < prod_list ns \<Longrightarrow> \<exists>m. gridPoint ns m \<and> flatIndex ns m = x"
proof (induction ns arbitrary: x)
  case Nil
  then show ?case by (simp add: gridPoint_def)
next
  case (Cons n ns)
  let ?P = "prod_list ns"
  have P: "0 < ?P" using Cons.prems by (cases "?P = 0") simp_all
  have "x mod ?P < ?P" using P by simp
  then obtain m where m: "gridPoint ns m" "flatIndex ns m = x mod ?P"
    using Cons.IH by blast
  have "x div ?P < n"
    using Cons.prems P by (simp add: less_mult_imp_div_less mult.commute)
  then have "gridPoint (n # ns) (x div ?P # m)"
    using m(1) by (simp add: gridPoint_def)
  moreover have "flatIndex (n # ns) (x div ?P # m) = x"
    using m(2) by simp
  ultimately show ?case by blast
qed

lemma flatIndex_sum:
  "length m = length ns \<Longrightarrow> flatIndex ns m = (\<Sum>j<length ns. m ! j * stride ns j)"
proof (induction ns m rule: list_induct2')
  case (4 n ns a m)
  then have IH: "flatIndex ns m = (\<Sum>j<length ns. m ! j * stride ns j)" by simp
  have "(\<Sum>j<length (n # ns). (a # m) ! j * stride (n # ns) j)
          = (a # m) ! 0 * stride (n # ns) 0
            + (\<Sum>j<length ns. (a # m) ! Suc j * stride (n # ns) (Suc j))"
    by (simp only: length_Cons sum.lessThan_Suc_shift)
  also have "\<dots> = a * prod_list ns + (\<Sum>j<length ns. m ! j * stride ns j)"
    by (simp add: stride_def)
  finally show ?case using IH by simp
qed simp_all

lemma gridPoint_split:
  assumes "p < length ns"
  shows "gridPoint ns m \<longleftrightarrow>
           length m = length ns \<and> gridPoint (take p ns) (take p m) \<and> m ! p < ns ! p
           \<and> gridPoint (drop (Suc p) ns) (drop (Suc p) m)"
proof
  assume g: "gridPoint ns m"
  then have len: "length m = length ns" by (simp add: gridPoint_def list_all2_lengthD)
  show "length m = length ns \<and> gridPoint (take p ns) (take p m) \<and> m ! p < ns ! p
           \<and> gridPoint (drop (Suc p) ns) (drop (Suc p) m)"
    using g len assms
    by (auto simp: gridPoint_def list_all2_takeI list_all2_dropI list_all2_nthD2)
next
  assume a: "length m = length ns \<and> gridPoint (take p ns) (take p m) \<and> m ! p < ns ! p
           \<and> gridPoint (drop (Suc p) ns) (drop (Suc p) m)"
  have ns: "ns = take p ns @ ns ! p # drop (Suc p) ns"
    using assms by (rule id_take_nth_drop)
  have m: "m = take p m @ m ! p # drop (Suc p) m"
    using assms a by (intro id_take_nth_drop) simp
  have "list_all2 (\<lambda>a n. a < n) (take p m @ m ! p # drop (Suc p) m)
          (take p ns @ ns ! p # drop (Suc p) ns)"
    using a by (intro list_all2_appendI) (simp_all add: gridPoint_def)
  then show "gridPoint ns m"
    unfolding gridPoint_def using ns m by simp
qed

lemma flatIndex_split:
  assumes "p < length ns" and "length m = length ns"
  shows "flatIndex ns m
           = (flatIndex (take p ns) (take p m) * ns ! p + m ! p) * stride ns p
             + flatIndex (drop (Suc p) ns) (drop (Suc p) m)"
proof -
  have ns: "ns = take p ns @ ns ! p # drop (Suc p) ns"
    using assms by (intro id_take_nth_drop) simp
  have m: "m = take p m @ m ! p # drop (Suc p) m"
    using assms by (intro id_take_nth_drop) simp
  have "flatIndex (take p ns @ ns ! p # drop (Suc p) ns) (take p m @ m ! p # drop (Suc p) m)
          = flatIndex (take p ns) (take p m) * prod_list (ns ! p # drop (Suc p) ns)
            + flatIndex (ns ! p # drop (Suc p) ns) (m ! p # drop (Suc p) m)"
    using assms by (intro flatIndex_append) simp
  then show ?thesis
    using ns m by (simp add: stride_def algebra_simps)
qed

lemma rev_position:
  assumes "d < length ns"
  shows "rev ns ! d = ns ! (length ns - Suc d)"
    and "prod_list (take d (rev ns)) = stride ns (length ns - Suc d)"
    and "prod_list (drop (Suc d) (rev ns)) = prod_list (take (length ns - Suc d) ns)"
proof -
  show "rev ns ! d = ns ! (length ns - Suc d)"
    using assms by (rule rev_nth)
  have "Suc (length ns - Suc d) = length ns - d" using assms by simp
  then show "prod_list (take d (rev ns)) = stride ns (length ns - Suc d)"
    by (simp add: stride_def take_rev prod_list.rev)
  show "prod_list (drop (Suc d) (rev ns)) = prod_list (take (length ns - Suc d) ns)"
    by (simp add: drop_rev prod_list.rev)
qed

lemma triple_union_conv:
  "(\<Union>j\<in>{0..<R}. \<Union>l\<in>{0..<N}. (\<lambda>c. f j l c) ` {0..<L::nat})
     = {f j l c | j l c. j < (R::nat) \<and> l < (N::nat) \<and> c < L}"
proof (intro set_eqI iffI)
  fix x assume "x \<in> (\<Union>j\<in>{0..<R}. \<Union>l\<in>{0..<N}. (\<lambda>c. f j l c) ` {0..<L})"
  then obtain j l c where "x = f j l c" "j < R" "l < N" "c < L" by auto
  then show "x \<in> {f j l c | j l c. j < R \<and> l < N \<and> c < L}" by blast
next
  fix x assume "x \<in> {f j l c | j l c. j < R \<and> l < N \<and> c < L}"
  then obtain j l c where "x = f j l c" "j \<in> {0..<R}" "l \<in> {0..<N}" "c \<in> {0..<L}" by auto
  then show "x \<in> (\<Union>j\<in>{0..<R}. \<Union>l\<in>{0..<N}. (\<lambda>c. f j l c) ` {0..<L})" by blast
qed

lemma set_block_stencils:
  assumes "d < length ns"
  shows "set (block_stencils (rev ns) (length ns) d)
           = (\<lambda>m. (flatIndex ns m, stride ns (length ns - Suc d)))
               ` {m. gridPoint ns m \<and> m ! (length ns - Suc d) + 2 < ns ! (length ns - Suc d)}"
    (is "?lhs = ?rhs")
proof -
  define p where "p = length ns - Suc d"
  have p: "p < length ns" using assms by (simp add: p_def)
  let ?n = "ns ! p" and ?L = "stride ns p" and ?R = "prod_list (take p ns)"
  have d: "d < length (rev ns)" using assms by simp
  have "?lhs = (\<Union>j\<in>{0..<?R}. \<Union>l\<in>{0..<?n - 2}.
                       (\<lambda>c. ((j * ?n + l) * ?L + c, ?L)) ` {0..<?L})"
    using block_stencils_eq [OF d] rev_position [OF assms]
    by (simp add: p_def)
  also have "\<dots> = {((j * ?n + l) * ?L + c, ?L) | j l c. j < ?R \<and> l < ?n - 2 \<and> c < ?L}"
    by (rule triple_union_conv)
  finally have lhs: "?lhs = {((j * ?n + l) * ?L + c, ?L) | j l c. j < ?R \<and> l < ?n - 2 \<and> c < ?L}" .
  have "?lhs = (\<lambda>m. (flatIndex ns m, ?L)) ` {m. gridPoint ns m \<and> m ! p + 2 < ?n}"
  proof (intro set_eqI iffI)
    fix x assume "x \<in> ?lhs"
    then obtain j l c where j: "j < ?R" and l: "l < ?n - 2" and c: "c < ?L"
      and x: "x = ((j * ?n + l) * ?L + c, ?L)"
      unfolding lhs by auto
    obtain mj where mj: "gridPoint (take p ns) mj" "flatIndex (take p ns) mj = j"
      using flatIndex_onto [OF j] by blast
    obtain mc where mc: "gridPoint (drop (Suc p) ns) mc" "flatIndex (drop (Suc p) ns) mc = c"
      using flatIndex_onto [of c "drop (Suc p) ns"] c by (auto simp: stride_def)
    have lj: "length mj = p"
      using mj(1) p by (auto simp: gridPoint_def dest: list_all2_lengthD)
    have lc: "length mc = length ns - Suc p"
      using mc(1) by (auto simp: gridPoint_def dest: list_all2_lengthD)
    let ?m = "mj @ l # mc"
    have parts: "take p ?m = mj" "?m ! p = l" "drop (Suc p) ?m = mc" "length ?m = length ns"
      using lj lc p by (simp_all add: nth_append)
    have "gridPoint ns ?m"
      unfolding gridPoint_split [OF p] parts using mj(1) mc(1) l by simp
    moreover have "?m ! p + 2 < ?n" using l parts(2) by simp
    moreover have "flatIndex ns ?m = (j * ?n + l) * ?L + c"
      unfolding flatIndex_split [OF p parts(4)] parts using mj(2) mc(2) by simp
    ultimately show "x \<in> (\<lambda>m. (flatIndex ns m, ?L)) ` {m. gridPoint ns m \<and> m ! p + 2 < ?n}"
      unfolding x by force
  next
    fix x assume "x \<in> (\<lambda>m. (flatIndex ns m, ?L)) ` {m. gridPoint ns m \<and> m ! p + 2 < ?n}"
    then obtain m where m: "gridPoint ns m" "m ! p + 2 < ?n" and x: "x = (flatIndex ns m, ?L)"
      by blast
    have g: "length m = length ns" "gridPoint (take p ns) (take p m)"
      "gridPoint (drop (Suc p) ns) (drop (Suc p) m)"
      using m(1) unfolding gridPoint_split [OF p] by simp_all
    let ?j = "flatIndex (take p ns) (take p m)"
    let ?c = "flatIndex (drop (Suc p) ns) (drop (Suc p) m)"
    have "?j < ?R" using flatIndex_less [OF g(2)] .
    moreover have "?c < ?L" using flatIndex_less [OF g(3)] by (simp add: stride_def)
    moreover have "m ! p < ?n - 2" using m(2) by simp
    moreover have "x = ((?j * ?n + m ! p) * ?L + ?c, ?L)"
      unfolding x flatIndex_split [OF p g(1)] by simp
    ultimately show "x \<in> ?lhs"
      unfolding lhs by blast
  qed
  then show ?thesis by (simp add: p_def)
qed

lemma length_rowsFrom: "length (rowsFrom i ks) = 3 * length ks"
  by (induction ks arbitrary: i) simp_all

lemma rowsFrom_rows: "e \<in> set (rowsFrom i ks) \<Longrightarrow> i \<le> fst e \<and> fst e < i + length ks"
  by (induction ks arbitrary: i) fastforce+

lemma filter_rowsFrom:
  "filter (\<lambda>e. fst e = r) (rowsFrom i ks)
     = (if i \<le> r \<and> r < i + length ks
        then [(r, fst (ks ! (r - i)), 1),
              (r, fst (ks ! (r - i)) + snd (ks ! (r - i)), - 2),
              (r, fst (ks ! (r - i)) + 2 * snd (ks ! (r - i)), 1)]
        else [])"
proof (induction ks arbitrary: i)
  case Nil
  then show ?case by simp
next
  case (Cons kL ks)
  show ?case
  proof (cases "r = i")
    case True
    then show ?thesis using Cons.IH [of "Suc i"] by simp
  next
    case False
    then show ?thesis
      using Cons.IH [of "Suc i"] by (cases "i \<le> r") (auto simp: Suc_diff_le nth_Cons')
  qed
qed

lemma sum_blockRowCounts:
  "sum_list (blockRowCounts (rev ns) (length ns)) = rowCount ns"
proof -
  let ?k = "length ns"
  let ?g = "\<lambda>p. (ns ! p - 2) * prod_list (take p ns @ drop (Suc p) ns)"
  have len: "length (blockRowCounts (rev ns) ?k) = ?k"
    by (simp add: blockRowCounts_def)
  have "sum_list (blockRowCounts (rev ns) ?k) = (\<Sum>d<?k. blockRowCounts (rev ns) ?k ! d)"
    by (simp add: sum_list_sum_nth len atLeast0LessThan)
  also have "\<dots> = (\<Sum>d<?k. ?g (?k - Suc d))"
  proof (rule sum.cong)
    fix d assume "d \<in> {..<?k}"
    then have d: "d < length ns" by simp
    have "blockRowCounts (rev ns) (length (rev ns)) ! d
            = prod_list (take d (rev ns)) * (rev ns ! d - 2) * prod_list (drop (Suc d) (rev ns))"
      by (rule blockRowCounts_nth) (use d in simp)
    then show "blockRowCounts (rev ns) ?k ! d = ?g (?k - Suc d)"
      using rev_position [OF d] by (simp add: stride_def mult_ac)
  qed simp
  also have "\<dots> = (\<Sum>p<?k. ?g p)"
    by (rule sum.nat_diff_reindex)
  finally show ?thesis by (simp add: rowCount_def)
qed

lemma set_all_stencils:
  "set (all_stencils (rev ns) (length ns))
     = (\<Union>p<length ns. (\<lambda>m. (flatIndex ns m, stride ns p))
                            ` {m. gridPoint ns m \<and> m ! p + 2 < ns ! p})"
    (is "?lhs = ?rhs")
proof -
  let ?S = "\<lambda>p. (\<lambda>m. (flatIndex ns m, stride ns p)) ` {m. gridPoint ns m \<and> m ! p + 2 < ns ! p}"
  have "?lhs = (\<Union>d<length ns. ?S (length ns - Suc d))"
    by (simp add: all_stencils_def set_block_stencils atLeast0LessThan)
  also have "\<dots> = (\<Union>p<length ns. ?S p)"
  proof (intro set_eqI iffI)
    fix x assume "x \<in> (\<Union>d<length ns. ?S (length ns - Suc d))"
    then obtain d where "d < length ns" "x \<in> ?S (length ns - Suc d)" by blast
    moreover from this have "length ns - Suc d < length ns" by simp
    ultimately show "x \<in> (\<Union>p<length ns. ?S p)" by blast
  next
    fix x assume "x \<in> (\<Union>p<length ns. ?S p)"
    then obtain p where p: "p < length ns" "x \<in> ?S p" by blast
    then have "length ns - Suc p < length ns" "length ns - Suc (length ns - Suc p) = p"
      by simp_all
    with p(2) show "x \<in> (\<Union>d<length ns. ?S (length ns - Suc d))" by force
  qed
  finally show ?thesis .
qed

lemma length_all_stencils_rowCount:
  "length (all_stencils (rev ns) (length ns)) = rowCount ns"
  using length_all_stencils [of "rev ns"] by (simp add: sum_blockRowCounts)

lemma nested_concat_product:
  "concat (map (\<lambda>j. concat (map (\<lambda>l. map (\<lambda>c. g j l c) cs) ls)) js)
     = map (\<lambda>(j, l, c). g j l c) (List.product js (List.product ls cs))"
proof -
  have inner: "concat (map (\<lambda>l. map (\<lambda>c. g j l c) cs) ls)
                 = map (\<lambda>(l, c). g j l c) (List.product ls cs)" for j
    by (induction ls) simp_all
  show ?thesis
    by (induction js) (simp_all add: inner comp_def case_prod_unfold)
qed

lemma mixed_radix_inj:
  assumes "(j * n + l) * L + c = (j' * n + l') * L + c'"
    and "l < n" "l' < n" "c < L" "c' < (L::nat)"
  shows "j = j' \<and> l = l' \<and> c = c'"
proof -
  have "((j * n + l) * L + c) div L = j * n + l" "((j * n + l) * L + c) mod L = c"
    using assms(4) by simp_all
  moreover have "((j' * n + l') * L + c') div L = j' * n + l'" "((j' * n + l') * L + c') mod L = c'"
    using assms(5) by simp_all
  ultimately have q: "j * n + l = j' * n + l'" and c: "c = c'"
    using assms(1) by simp_all
  have "(j * n + l) div n = j" "(j * n + l) mod n = l"
    using assms(2) by simp_all
  moreover have "(j' * n + l') div n = j'" "(j' * n + l') mod n = l'"
    using assms(3) by simp_all
  ultimately have "j = j'" "l = l'" using q by simp_all
  with c show ?thesis by simp
qed

lemma distinct_block_bases:
  assumes "d < length dims"
  shows "distinct (map fst (block_stencils dims (length dims) d))"
proof -
  let ?n = "dims ! d" and ?L = "prod_list (take d dims)" and ?R = "prod_list (drop (Suc d) dims)"
  let ?P = "List.product [0..<?R] (List.product [0..<?n - 2] [0..<?L])"
  let ?f = "\<lambda>(j, l, c). (j * ?n + l) * ?L + c"
  have "map fst (block_stencils dims (length dims) d) = map ?f ?P"
    unfolding block_stencils_eq [OF assms] nested_concat_product
    by (simp add: case_prod_unfold comp_def)
  moreover have "distinct ?P"
    by (intro distinct_product) simp_all
  moreover have "inj_on ?f (set ?P)"
  proof (rule inj_onI)
    fix x y assume x: "x \<in> set ?P" and y: "y \<in> set ?P" and e: "?f x = ?f y"
    obtain j l c where xx: "x = (j, l, c)" by (cases x) auto
    obtain j' l' c' where yy: "y = (j', l', c')" by (cases y) auto
    have "l < ?n" "l' < ?n" "c < ?L" "c' < ?L"
      using x y unfolding xx yy by auto
    with e show "x = y"
      unfolding xx yy using mixed_radix_inj [of j ?n l ?L c j' l' c'] by simp
  qed
  ultimately show ?thesis by (simp add: distinct_map)
qed

lemma block_stencils_snd:
  assumes "d < length dims" and "x \<in> set (block_stencils dims (length dims) d)"
  shows "snd x = prod_list (take d dims)"
  using assms(2) unfolding block_stencils_eq [OF assms(1)] by auto

lemma distinct_filter_le1:
  assumes "distinct xs" and "\<And>x y. P x \<Longrightarrow> P y \<Longrightarrow> x = y"
  shows "length (filter P xs) \<le> 1"
proof -
  have "length (filter P xs) = card ({x. P x} \<inter> set xs)"
    using assms(1) by (rule distinct_length_filter)
  also have "\<dots> \<le> 1"
  proof (cases "\<exists>x. P x")
    case True
    then obtain x where "P x" by blast
    then have "{x. P x} \<inter> set xs \<subseteq> {x}" using assms(2) by blast
    then have "card ({x. P x} \<inter> set xs) \<le> card {x}" by (intro card_mono) simp_all
    then show ?thesis by simp
  next
    case False
    then show ?thesis by simp
  qed
  finally show ?thesis .
qed

lemma block_column_count:
  assumes "d < length dims"
  shows "length (filter (\<lambda>x. fst x + a * snd x = c) (block_stencils dims (length dims) d)) \<le> 1"
proof -
  let ?B = "block_stencils dims (length dims) d" and ?L = "prod_list (take d dims)"
  have "filter (\<lambda>x. fst x + a * snd x = c) ?B = filter (\<lambda>x. fst x + a * ?L = c) ?B"
    by (rule filter_cong) (simp_all add: block_stencils_snd [OF assms])
  then have "length (filter (\<lambda>x. fst x + a * snd x = c) ?B)
               = length (filter (\<lambda>b. b + a * ?L = c) (map fst ?B))"
    by (simp add: filter_map comp_def)
  also have "\<dots> \<le> 1"
    by (rule distinct_filter_le1 [OF distinct_block_bases [OF assms]]) simp
  finally show ?thesis .
qed

lemma rowsFrom_column_count:
  "length (filter (\<lambda>e. fst (snd e) = c) (rowsFrom i ks))
     \<le> length (filter (\<lambda>x. fst x + 0 * snd x = c) ks)
       + length (filter (\<lambda>x. fst x + 1 * snd x = c) ks)
       + length (filter (\<lambda>x. fst x + 2 * snd x = c) ks)"
  by (induction ks arbitrary: i) (auto simp: le_SucI)

lemma concat_filter_count:
  "(\<And>xs. xs \<in> set xss \<Longrightarrow> length (filter P xs) \<le> n)
     \<Longrightarrow> length (filter P (concat xss)) \<le> length xss * n"
proof (induction xss)
  case Nil
  then show ?case by simp
next
  case (Cons xs xss)
  have "length (filter P xs) \<le> n" using Cons.prems by simp
  moreover have "length (filter P (concat xss)) \<le> length xss * n"
    using Cons by simp
  ultimately show ?case by simp
qed

lemma all_stencils_column_count:
  "length (filter (\<lambda>x. fst x + a * snd x = c) (all_stencils dims (length dims))) \<le> length dims"
proof -
  have "length (filter (\<lambda>x. fst x + a * snd x = c)
                  (concat (map (block_stencils dims (length dims)) [0..<length dims])))
        \<le> length (map (block_stencils dims (length dims)) [0..<length dims]) * 1"
    by (rule concat_filter_count) (use block_column_count [of _ dims a c] in auto)
  then show ?thesis by (simp add: all_stencils_def)
qed

lemma column_triplets:
  "length (filter (\<lambda>e. fst (snd e) = c) (rowsFrom 0 (all_stencils dims (length dims))))
     \<le> 3 * length dims"
  using rowsFrom_column_count [of c 0 "all_stencils dims (length dims)"]
    all_stencils_column_count [of 0 c dims] all_stencils_column_count [of 1 c dims]
    all_stencils_column_count [of 2 c dims]
  by linarith

lemma columnNonZeros_le_triplets:
  "columnNonZeros D c \<le> length (filter (\<lambda>e. fst (snd e) = c) (elems D))"
proof -
  let ?T = "filter (\<lambda>e. fst (snd e) = c) (elems D)"
  have sub: "{i. i < rows D \<and> coeff (matrix_of D) i c \<noteq> 0} \<subseteq> fst ` set ?T"
  proof
    fix i assume "i \<in> {i. i < rows D \<and> coeff (matrix_of D) i c \<noteq> 0}"
    then have "filter (\<lambda>e. fst e = i \<and> fst (snd e) = c) (elems D) \<noteq> []"
      by (auto simp: matrix_of_def split: if_splits)
    then obtain e where "e \<in> set (elems D)" "fst e = i" "fst (snd e) = c"
      by (auto simp: filter_empty_conv)
    then show "i \<in> fst ` set ?T" by force
  qed
  have "columnNonZeros D c = card {i. i < rows D \<and> coeff (matrix_of D) i c \<noteq> 0}"
    unfolding columnNonZeros_def
    by (subst distinct_length_filter) (auto intro: arg_cong [of _ _ card])
  also have "\<dots> \<le> card (fst ` set ?T)"
    by (intro card_mono sub) simp
  also have "\<dots> \<le> card (set ?T)" by (rule card_image_le) simp
  also have "\<dots> \<le> length ?T" by (rule card_length)
  finally show ?thesis .
qed

lemma stride_pos: "\<forall>n\<in>set ns. 3 \<le> n \<Longrightarrow> 0 < stride ns d"
proof -
  assume a: "\<forall>n\<in>set ns. 3 \<le> n"
  have "0 \<notin> set (drop (Suc d) ns)"
    using a by (auto dest!: in_set_dropD)
  then have "prod_list (drop (Suc d) ns) \<noteq> 0" by (simp add: prod_list_zero_iff)
  then show ?thesis by (simp add: stride_def)
qed

lemma stencil_in_range:
  assumes "d < length ns" and "gridPoint ns m" and "m ! d + 2 < ns ! d"
  shows "flatIndex ns m + 2 * stride ns d < prod_list ns"
proof -
  let ?n = "ns ! d" and ?L = "stride ns d" and ?R = "prod_list (take d ns)"
  have g: "length m = length ns" "gridPoint (take d ns) (take d m)"
    "gridPoint (drop (Suc d) ns) (drop (Suc d) m)"
    using assms(2) unfolding gridPoint_split [OF assms(1)] by simp_all
  let ?j = "flatIndex (take d ns) (take d m)"
  let ?c = "flatIndex (drop (Suc d) ns) (drop (Suc d) m)"
  have j: "?j < ?R" using flatIndex_less [OF g(2)] .
  have c: "?c < ?L" using flatIndex_less [OF g(3)] by (simp add: stride_def)
  have "flatIndex ns m + 2 * ?L = (?j * ?n + m ! d + 2) * ?L + ?c"
    unfolding flatIndex_split [OF assms(1) g(1)] by (simp add: algebra_simps)
  also have "\<dots> < (?j * ?n + m ! d + 2) * ?L + ?L" using c by simp
  also have "\<dots> = (?j * ?n + m ! d + 3) * ?L" by (simp add: algebra_simps)
  also have "\<dots> \<le> (?j * ?n + ?n) * ?L"
    using assms(3) by (intro mult_le_mono1) simp
  also have "\<dots> = Suc ?j * (?n * ?L)" by (simp add: algebra_simps)
  also have "\<dots> \<le> ?R * (?n * ?L)"
    using j by (intro mult_le_mono1) simp
  also have "\<dots> = prod_list (take d ns @ ns ! d # drop (Suc d) ns)"
    by (simp add: stride_def)
  also have "\<dots> = prod_list ns"
    using id_take_nth_drop [OF assms(1)] by simp
  finally show ?thesis .
qed

lemma int32_id: "0 \<le> x \<Longrightarrow> x < 2 ^ 31 \<Longrightarrow> int32 x = x"
  by (simp add: int32_def)

lemma int32_nat: "n < 2 ^ 31 \<Longrightarrow> int32 (int n) = int n"
  by (rule int32_id) simp_all

lemma int32_mod: "int32 x mod 2 ^ 32 = x mod 2 ^ 32"
  by (simp add: int32_def mod_diff_left_eq)

lemma int32_cong: "x mod 2 ^ 32 = y mod 2 ^ 32 \<Longrightarrow> int32 x = int32 y"
  unfolding int32_def by (metis mod_add_left_eq)

lemma int32_mult_left: "int32 (int32 a * b) = int32 (a * b)"
  by (rule int32_cong) (metis int32_mod mod_mult_left_eq)

lemma int32_add_left: "int32 (int32 a + b) = int32 (a + b)"
  by (rule int32_cong) (metis int32_mod mod_add_left_eq)

lemma int32_add_right: "int32 (a + int32 b) = int32 (a + b)"
  by (rule int32_cong) (metis int32_mod mod_add_right_eq)

lemma foldl_int32_times:
  "foldl (\<lambda>p k. int32 (p * int (g k))) (int32 (int a)) ks
     = int32 (int (a * prod_list (map g ks)))"
proof (induction ks arbitrary: a)
  case Nil
  then show ?case by simp
next
  case (Cons k ks)
  have "int32 (int32 (int a) * int (g k)) = int32 (int (a * g k))"
    by (simp add: int32_mult_left)
  then show ?case
    using Cons [of "a * g k"] by (simp add: mult.assoc)
qed

lemma foldl_int32_plus:
  "foldl (\<lambda>r p. int32 (r + p)) (int32 (int a)) (map (\<lambda>c. int32 (int c)) cs)
     = int32 (int (a + sum_list cs))"
proof (induction cs arbitrary: a)
  case Nil
  then show ?case by simp
next
  case (Cons c cs)
  have "int32 (int32 (int a) + int32 (int c)) = int32 (int (a + c))"
    by (simp add: int32_add_left int32_add_right)
  then show ?case
    using Cons [of "a + c"] by (simp add: add.assoc)
qed

lemma int32_one: "int32 1 = 1" "int32 0 = 0"
  by (simp_all add: int32_def)

lemma leftProd_of_int: "leftProd_of dims d = int32 (int (leftProduct dims d))"
  using foldl_int32_times [of "\<lambda>k. dims ! k" 1 "[0..<d]"]
  by (simp add: leftProd_of_def leftProduct_def foldl_times int32_one del: One_nat_def)

lemma rightProd_of_int: "rightProd_of dims nv d = int32 (int (rightProduct dims nv d))"
  using foldl_int32_times [of "\<lambda>k. dims ! k" 1 "[d + 1..<nv]"]
  by (simp add: rightProd_of_def rightProduct_def foldl_times int32_one del: One_nat_def)

lemma numBlkRows_of_int:
  "numBlkRows_of dims nv = map (\<lambda>c. int32 (int c)) (blockRowCounts dims nv)"
proof -
  have "foldl (\<lambda>prod j. if i = j then int32 (prod * int (dims ! j - 2))
                          else int32 (prod * int (dims ! j))) 1 ks
          = int32 (int (foldl (\<lambda>prod j. if i = j then prod * (dims ! j - 2) else prod * dims ! j)
                          1 ks))" for i ks
  proof -
    let ?g = "\<lambda>j. if i = j then dims ! j - 2 else dims ! j"
    have "(\<lambda>prod j. if i = j then int32 (prod * int (dims ! j - 2))
                      else int32 (prod * int (dims ! j)))
            = (\<lambda>p j. int32 (p * int (?g j)))"
      by (intro ext) simp
    moreover have "(\<lambda>prod j. if i = j then prod * (dims ! j - 2) else prod * dims ! j)
            = (\<lambda>p j. p * ?g j)"
      by (intro ext) simp
    ultimately show ?thesis
      using foldl_int32_times [of ?g 1 ks]
      by (simp add: foldl_times int32_one del: One_nat_def)
  qed
  then show ?thesis
    by (simp add: numBlkRows_of_def blockRowCounts_def)
qed

lemma inRange_append:
  "inRange (ks1 @ ks2) i \<Longrightarrow> inRange ks1 i \<and> inRange ks2 (i + length ks1)"
  by (simp add: inRange_def add.assoc)

lemma fst_emitRows [simp]: "fst (emitRows ks s) = fst s + length ks"
  by (simp add: emitRows_def)

lemma foldl_emitRows_int:
  assumes "\<And>x s. x \<in> set xs \<Longrightarrow> inRange (g x) (fst s) \<Longrightarrow>
             f (intState s) x = intState (emitRows (g x) s)"
    and "inRange (concat (map g xs)) (fst s)"
  shows "foldl f (intState s) xs = intState (emitRows (concat (map g xs)) s)"
  using assms
proof (induction xs arbitrary: s)
  case Nil
  then show ?case by simp
next
  case (Cons x xs)
  have r: "inRange (g x) (fst s)" "inRange (concat (map g xs)) (fst s + length (g x))"
    using inRange_append [of "g x" "concat (map g xs)" "fst s"] Cons.prems(2) by simp_all
  have "f (intState s) x = intState (emitRows (g x) s)"
    using Cons.prems(1) r(1) by simp
  moreover have "foldl f (intState (emitRows (g x) s)) xs
          = intState (emitRows (concat (map g xs)) (emitRows (g x) s))"
    using Cons.prems(1) r(2) by (intro Cons.IH) simp_all
  ultimately show ?case
    by (simp add: emitRows_append)
qed

lemma insertStencil_emitRows:
  assumes "inRange [(k, L)] (fst s)"
  shows "insertStencil (int k) (int L) (intState s) = intState (emitRows [(k, L)] s)"
proof -
  have b: "k + 2 * L < 2 ^ 31" "fst s + 1 < 2 ^ 31"
    using assms by (simp_all add: inRange_def)
  have "int32 (int k + int L) = int (k + L)"
    using b(1) int32_nat [of "k + L"] by simp
  moreover have "int32 (int (k + L) + int L) = int (k + 2 * L)"
    using b(1) int32_nat [of "k + 2 * L"] by (simp add: algebra_simps)
  moreover have "int32 (int (fst s) + 1) = int (fst s + 1)"
    using b(2) int32_nat [of "fst s + 1"] by (simp add: algebra_simps)
  ultimately show ?thesis
    by (cases s)
      (simp add: insertStencil_def intState_def emitRows_def insert_elem_def Let_def
        nat_add_distrib nat_mult_distrib)
qed

lemma blockRows_emitRows:
  assumes "inRange (blockRows_stencils dims d L j l) (fst s)"
  shows "blockRows dims d (int L) (int j) l (intState s)
           = intState (emitRows (blockRows_stencils dims d L j l) s)"
proof (cases "d = 0")
  case True
  then have r: "inRange [(j * L * dims ! d + l, L)] (fst s)"
    using assms by (simp add: blockRows_stencils_def)
  then have "j * L * dims ! d + l < 2 ^ 31"
    by (simp add: inRange_def)
  then have "int32 (int j * int L * int (dims ! d) + int l) = int (j * L * dims ! d + l)"
    using int32_nat [of "j * L * dims ! d + l"] by simp
  then show ?thesis
    using True insertStencil_emitRows [OF r]
    by (simp add: blockRows_def blockRows_stencils_def Let_def)
next
  case False
  let ?k = "\<lambda>n. j * L * dims ! d + l * L + n"
  have all: "list_all (\<lambda>e. fst e + 2 * snd e < 2 ^ 31) (map (\<lambda>n. (?k n, L)) [0..<L])"
    and len: "fst s + L < 2 ^ 31"
    using assms False by (simp_all add: blockRows_stencils_def inRange_def)
  have k: "int32 (int32 (int j * int L * int (dims ! d)) + int l * int L + int n) = int (?k n)"
    if "n < L" for n
  proof -
    have "?k n + 2 * L < 2 ^ 31"
      using all that by (simp add: list_all_iff)
    then have "int32 (int (?k n)) = int (?k n)"
      by (intro int32_nat) simp
    moreover have "int32 (int32 (int j * int L * int (dims ! d)) + (int l * int L + int n))
            = int32 (int j * int L * int (dims ! d) + (int l * int L + int n))"
      by (rule int32_add_left)
    ultimately show ?thesis by (simp add: add.assoc)
  qed
  have "foldl (\<lambda>s n. insertStencil
                 (int32 (int32 (int j * int L * int (dims ! d)) + int l * int L + int n)) (int L) s)
          (intState s) [0..<L]
        = intState (emitRows (concat (map (\<lambda>n. [(?k n, L)]) [0..<L])) s)"
  proof (rule foldl_emitRows_int)
    fix n and t :: "nat \<times> SparseMatrix"
    assume n: "n \<in> set [0..<L]" and r: "inRange [(?k n, L)] (fst t)"
    show "insertStencil
            (int32 (int32 (int j * int L * int (dims ! d)) + int l * int L + int n)) (int L)
            (intState t) = intState (emitRows [(?k n, L)] t)"
      using k [of n] n insertStencil_emitRows [OF r] by simp
  next
    have "concat (map (\<lambda>n. [(?k n, L)]) [0..<L]) = map (\<lambda>n. (?k n, L)) [0..<L]"
      by (induction L) simp_all
    then show "inRange (concat (map (\<lambda>n. [(?k n, L)]) [0..<L])) (fst s)"
      using all len by (simp add: inRange_def)
  qed
  moreover have "concat (map (\<lambda>n. [(?k n, L)]) [0..<L]) = map (\<lambda>n. (?k n, L)) [0..<L]"
    by (induction L) simp_all
  ultimately show ?thesis
    using False by (simp add: blockRows_def blockRows_stencils_def Let_def foldl_map)
qed

lemma subblock_emitRows:
  assumes "inRange (concat (map (blockRows_stencils dims d L j) [0..<dims ! d - 2])) (fst s)"
  shows "subblock dims d (int L) (int j) (intState s)
     = intState (emitRows (concat (map (blockRows_stencils dims d L j) [0..<dims ! d - 2])) s)"
  unfolding subblock_def
  by (rule foldl_emitRows_int) (use assms in \<open>simp_all add: blockRows_emitRows\<close>)

lemma block_emitRows:
  assumes "leftProduct dims d < 2 ^ 31" and "rightProduct dims nv d < 2 ^ 31"
    and "inRange (block_stencils dims nv d) (fst s)"
  shows "block dims nv d (intState s) = intState (emitRows (block_stencils dims nv d) s)"
proof -
  have L: "leftProd_of dims d = int (leftProduct dims d)"
    and R: "rightProd_of dims nv d = int (rightProduct dims nv d)"
    using assms(1,2) by (simp_all add: leftProd_of_int rightProd_of_int int32_nat)
  have "foldl (\<lambda>s j. subblock dims d (int (leftProduct dims d)) (int j) s) (intState s)
          [0..<rightProduct dims nv d]
        = intState (emitRows (concat (map (\<lambda>j. concat (map (blockRows_stencils dims d
                      (leftProduct dims d) j) [0..<dims ! d - 2]))
                    [0..<rightProduct dims nv d])) s)"
    by (rule foldl_emitRows_int)
      (use assms(3) in \<open>simp_all add: subblock_emitRows block_stencils_def\<close>)
  then show ?thesis
    by (simp add: block_def Let_def L R foldl_map block_stencils_def)
qed

lemma blocks_emitRows:
  assumes "\<forall>d<nv. leftProduct dims d < 2 ^ 31 \<and> rightProduct dims nv d < 2 ^ 31"
    and "inRange (all_stencils dims nv) (fst s)"
  shows "foldl (\<lambda>s d. block dims nv d s) (intState s) [0..<nv]
           = intState (emitRows (all_stencils dims nv) s)"
  unfolding all_stencils_def
  by (rule foldl_emitRows_int)
    (use assms in \<open>simp_all add: block_emitRows all_stencils_def\<close>)

lemma loop_products_le:
  assumes "d < length dims" and "\<forall>n\<in>set dims. 3 \<le> n"
  shows "leftProduct dims d \<le> prod_list dims"
    and "rightProduct dims (length dims) d \<le> prod_list dims"
proof -
  let ?L = "leftProduct dims d" and ?R = "rightProduct dims (length dims) d"
  have "0 \<notin> set dims" using assms(2) by auto
  then have "prod_list dims \<noteq> 0" by (simp add: prod_list_zero_iff)
  then have p: "?L * dims ! d * ?R \<noteq> 0"
    using loop_products [OF assms(1)] by simp
  then have pos: "1 \<le> dims ! d * ?R" "1 \<le> ?L * dims ! d" by simp_all
  have "?L * 1 \<le> ?L * (dims ! d * ?R)"
    using pos(1) by (rule mult_le_mono2)
  then have "?L \<le> ?L * dims ! d * ?R"
    by (simp only: mult_1_right mult.assoc)
  then show "?L \<le> prod_list dims"
    unfolding loop_products [OF assms(1)] .
  have "1 * ?R \<le> (?L * dims ! d) * ?R"
    using pos(2) by (rule mult_le_mono1)
  then have "?R \<le> ?L * dims ! d * ?R"
    by (simp only: mult_1_left)
  then show "?R \<le> prod_list dims"
    unfolding loop_products [OF assms(1)] .
qed

lemma difference_matrix_value:
  assumes "getDimX bs = length ns" and "getNumBasisFunctionsPerVariable bs = ns"
    and "\<forall>n\<in>set ns. 3 \<le> n" and "prod_list ns < 2 ^ 31" and "rowCount ns < 2 ^ 31"
  shows "getSecondOrderFiniteDifferenceMatrix bs =
           Inr \<lparr>rows = rowCount ns, cols = getNumBasisFunctions bs,
                elems = rowsFrom 0 (all_stencils (rev ns) (length ns))\<rparr>"
proof -
  let ?dims = "rev ns" and ?k = "length ns"
  let ?ks = "all_stencils ?dims ?k"
  let ?D0 = "SparseMatrix_ctor (rowCount ns) (getNumBasisFunctions bs)"
  have pushed: "sequence_res (map (at_vec ns) [0..<?k]) = Inr ns"
    using pushed_dims [of ?k ns] by simp
  have "\<not> ns ! i < 3" if "i < ?k" for i
    using assms(3) that by (meson nth_mem not_less)
  then have ok: "\<not> list_ex (\<lambda>i. ns ! i < 3) [0..<?k]"
    by (simp add: list_ex_iff)
  have rows: "foldl (\<lambda>numRows prod. int32 (numRows + prod)) 0 (numBlkRows_of ?dims ?k)
                = int (rowCount ns)"
    using foldl_int32_plus [of 0 "blockRowCounts ?dims ?k"] assms(5)
    by (simp add: numBlkRows_of_int sum_blockRowCounts int32_one int32_nat)
  have prods: "\<forall>d<?k. leftProduct ?dims d < 2 ^ 31 \<and> rightProduct ?dims ?k d < 2 ^ 31"
  proof (intro allI impI)
    fix d assume d: "d < ?k"
    have "leftProduct ?dims d \<le> prod_list ?dims"
        "rightProduct ?dims (length ?dims) d \<le> prod_list ?dims"
      using loop_products_le [of d ?dims] d assms(3) by simp_all
    then show "leftProduct ?dims d < 2 ^ 31 \<and> rightProduct ?dims ?k d < 2 ^ 31"
      using assms(4) by (simp add: prod_list.rev)
  qed
  have "fst e + 2 * snd e < 2 ^ 31" if "e \<in> set ?ks" for e
  proof -
    from that obtain p m where p: "p < ?k" "gridPoint ns m" "m ! p + 2 < ns ! p"
      "e = (flatIndex ns m, stride ns p)"
      unfolding set_all_stencils by blast
    have "flatIndex ns m + 2 * stride ns p < prod_list ns"
      using p(1-3) by (rule stencil_in_range)
    then show ?thesis using p(4) assms(4) by simp
  qed
  then have range: "inRange ?ks 0"
    using assms(5) by (simp add: inRange_def list_all_iff length_all_stencils_rowCount)
  have "foldl (\<lambda>s d. block ?dims ?k d s) (intState (0, ?D0)) [0..<?k]
          = intState (emitRows ?ks (0, ?D0))"
    by (rule blocks_emitRows) (use prods range in simp_all)
  then show ?thesis
    using assms(1,2) pushed ok rows
    by (simp add: getSecondOrderFiniteDifferenceMatrix_def Let_def intState_def emitRows_def
        SparseMatrix_ctor_def)
qed

lemma fiveShell_matrix: "getSecondOrderFiniteDifferenceMatrix fiveShell = Inr fiveMatrix"
proof -
  have "all_stencils [5] 1 = [(0, 1), (1, 1), (2, 1)]"
    by code_simp
  moreover have "rowCount [5] = 3"
    by (simp add: rowCount_def)
  moreover have "prod_list [5::nat] < 2 ^ 31"
    by simp
  ultimately show ?thesis
    using difference_matrix_value [of fiveShell "[5]"]
    by (simp add: fiveShell_def BSpline_ctor_def fiveMatrix_def)
qed

lemma gridShell_matrix: "getSecondOrderFiniteDifferenceMatrix gridShell = Inr gridMatrix"
proof -
  have r: "rowCount [3, 4] = 10"
    by code_simp
  have v: "getSecondOrderFiniteDifferenceMatrix gridShell =
             Inr \<lparr>rows = rowCount [3, 4], cols = getNumBasisFunctions gridShell,
                  elems = rowsFrom 0 (all_stencils (rev [3, 4]) (length [3, 4::nat]))\<rparr>"
    by (rule difference_matrix_value) (simp_all add: gridShell_def BSpline_ctor_def r)
  have e: "rowsFrom 0 (all_stencils (rev [3, 4]) (length [3, 4::nat])) = elems gridMatrix"
    unfolding gridMatrix_def by code_simp
  have c: "getNumBasisFunctions gridShell = 12"
    by (simp add: gridShell_def BSpline_ctor_def)
  show ?thesis
    unfolding v e r c by (simp add: gridMatrix_def)
qed

text \<open>
  Without the bounds the row count wraps: for two dimensions with 46340 basis functions
  each, both blocks have 2147302920 rows, and their sum is not a 32-bit \<^verbatim>\<open>int\<close>.
\<close>

lemma numRows_wraps:
  "numBlkRows_of [46340, 46340] 2 = [2147302920, 2147302920]
   \<and> foldl (\<lambda>numRows prod. int32 (numRows + prod)) 0 (numBlkRows_of [46340, 46340] 2) = - 361456"
proof -
  have "[0..<2] = [0, 1]" by code_simp
  then show ?thesis
    by (simp add: numBlkRows_of_def int32_def)
qed

lemma stride_Suc:
  assumes "Suc p < length ns"
  shows "stride ns p = ns ! Suc p * stride ns (Suc p)"
proof -
  have "drop (Suc p) ns = ns ! Suc p # drop (Suc (Suc p)) ns"
    using assms by (simp add: Cons_nth_drop_Suc)
  then show ?thesis by (simp add: stride_def)
qed

lemma stride_decreasing:
  assumes "\<forall>n\<in>set ns. 3 \<le> n" and "p < q" and "q < length ns"
  shows "stride ns q < stride ns p"
  using assms(2,3)
proof (induction q)
  case 0
  then show ?case by simp
next
  case (Suc q)
  have pos: "0 < stride ns (Suc q)" using assms(1) by (rule stride_pos)
  have "3 \<le> ns ! Suc q" using assms(1) Suc.prems by simp
  then have "stride ns (Suc q) < ns ! Suc q * stride ns (Suc q)"
    using pos by simp
  then have step: "stride ns (Suc q) < stride ns q"
    using stride_Suc [of q ns] Suc.prems by simp
  show ?case
  proof (cases "p = q")
    case True
    then show ?thesis using step by simp
  next
    case False
    then have "stride ns q < stride ns p" using Suc by simp
    then show ?thesis using step by simp
  qed
qed

lemma stride_inj:
  assumes "\<forall>n\<in>set ns. 3 \<le> n" and "p < length ns" and "q < length ns"
    and "stride ns p = stride ns q"
  shows "p = q"
proof (rule ccontr)
  assume "p \<noteq> q"
  then consider "p < q" | "q < p" by linarith
  then show False
    using stride_decreasing [OF assms(1), of p q] stride_decreasing [OF assms(1), of q p] assms(2-4)
    by cases simp_all
qed

lemma distinct_concat_upt:
  assumes "\<And>d. d < k \<Longrightarrow> distinct (f d)"
    and "\<And>d d'. d < d' \<Longrightarrow> d' < k \<Longrightarrow> set (f d) \<inter> set (f d') = {}"
  shows "distinct (concat (map f [0..<k]))"
  using assms
proof (induction k)
  case 0
  then show ?case by simp
next
  case (Suc k)
  have "distinct (concat (map f [0..<k]))"
    using Suc by simp
  moreover have "distinct (f k)" using Suc.prems(1) by simp
  moreover have "set (concat (map f [0..<k])) \<inter> set (f k) = {}"
    using Suc.prems(2) [of _ k] by fastforce
  ultimately show ?case by simp
qed

lemma distinct_all_stencils:
  assumes "\<forall>n\<in>set ns. 3 \<le> n"
  shows "distinct (all_stencils (rev ns) (length ns))"
  unfolding all_stencils_def
proof (rule distinct_concat_upt)
  fix d assume d: "d < length ns"
  have "distinct (map fst (block_stencils (rev ns) (length (rev ns)) d))"
    by (rule distinct_block_bases) (use d in simp)
  then show "distinct (block_stencils (rev ns) (length ns) d)"
    by (simp add: distinct_map)
next
  fix d d' assume dd: "d < d'" "d' < length ns"
  show "set (block_stencils (rev ns) (length ns) d)
          \<inter> set (block_stencils (rev ns) (length ns) d') = {}"
  proof (rule ccontr)
    assume "set (block_stencils (rev ns) (length ns) d)
              \<inter> set (block_stencils (rev ns) (length ns) d') \<noteq> {}"
    then obtain x where x: "x \<in> set (block_stencils (rev ns) (length ns) d)"
      "x \<in> set (block_stencils (rev ns) (length ns) d')" by blast
    have "snd x = stride ns (length ns - Suc d)"
      using x(1) dd unfolding set_block_stencils [of d ns, OF less_trans [OF dd]] by auto
    moreover have "snd x = stride ns (length ns - Suc d')"
      using x(2) dd unfolding set_block_stencils [OF dd(2)] by auto
    ultimately have "length ns - Suc d = length ns - Suc d'"
      using stride_inj [OF assms, of "length ns - Suc d" "length ns - Suc d'"] dd by simp
    then show False using dd by simp
  qed
qed


lemma sorted_concat_upt:
  fixes c :: "nat \<Rightarrow> nat"
  assumes "\<And>d x. d < k \<Longrightarrow> x \<in> set (f d) \<Longrightarrow> g x = c d"
    and "\<And>d d'. d \<le> d' \<Longrightarrow> d' < k \<Longrightarrow> c d \<le> c d'"
  shows "sorted (map g (concat (map f [0..<k])))"
  using assms
proof (induction k)
  case 0
  then show ?case by simp
next
  case (Suc k)
  have "sorted (map g (concat (map f [0..<k])))"
    using Suc by simp
  moreover have "sorted (map g (f k))"
    using Suc.prems(1) [of k] by (simp add: sorted_iff_nth_mono)
  moreover have "g x \<le> g y" if "x \<in> set (concat (map f [0..<k]))" "y \<in> set (f k)" for x y
  proof -
    from that(1) obtain d where d: "d < k" "x \<in> set (f d)" by auto
    have "g x = c d" using Suc.prems(1) [of d x] d by simp
    moreover have "g y = c k" using Suc.prems(1) [of k y] that(2) by simp
    moreover have "c d \<le> c k" using Suc.prems(2) [of d k] d by simp
    ultimately show ?thesis by simp
  qed
  ultimately show ?case by (simp add: sorted_append)
qed

lemma sorted_all_stencils:
  assumes "\<forall>n\<in>set ns. 3 \<le> n"
  shows "sorted (map snd (all_stencils (rev ns) (length ns)))"
  unfolding all_stencils_def
proof (rule sorted_concat_upt [where c = "\<lambda>d. stride ns (length ns - Suc d)"])
  fix d x assume "d < length ns" "x \<in> set (block_stencils (rev ns) (length ns) d)"
  then show "snd x = stride ns (length ns - Suc d)"
    unfolding set_block_stencils [OF \<open>d < length ns\<close>] by auto
next
  fix d d' :: nat assume dd: "d \<le> d'" "d' < length ns"
  show "stride ns (length ns - Suc d) \<le> stride ns (length ns - Suc d')"
  proof (cases "d = d'")
    case True
    then show ?thesis by simp
  next
    case False
    then have "length ns - Suc d' < length ns - Suc d" "length ns - Suc d < length ns"
      using dd by simp_all
    then show ?thesis
      using stride_decreasing [OF assms] by (simp add: less_imp_le)
  qed
qed

text \<open>
  C1. Let \<open>ns\<close> be the per-dimension counts of basis functions \<open>n_1 .. n_k\<close> of the
  shell, each at least 3, with a number of columns \<open>prod_list ns\<close> and a number of rows
  \<open>rowCount ns\<close> below \<open>2^31\<close>, so that the \<^verbatim>\<open>int\<close> variables of the source do not
  wrap. The matrix has \<open>rowCount ns\<close> rows, the sum over the
  dimensions \<open>d\<close> of \<open>(n_d - 2)\<close> times the product of the other counts. Every row
  \<open>i\<close> holds exactly three insertions, with the values 1, -2, 1 at the columns
  \<open>base\<close>, \<open>base + stride\<close> and \<open>base + 2 * stride\<close>, all of them columns of the
  flattened grid: \<open>stride\<close> is the stride of one dimension \<open>d\<close> in the flattening
  where the last dimension varies fastest (the product of the counts after \<open>d\<close>, which
  the source accumulates as \<^verbatim>\<open>leftProd\<close> over the reversed list), and \<open>base\<close> is the
  flattened index of a grid position \<open>m\<close> whose two successors along \<open>d\<close> are in the
  grid. Every such position of every dimension has exactly one row, and the rows come
  dimension by dimension, those of the last dimension first. The flattened index of
  \<open>m\<close> is the sum of \<open>m ! j * stride ns j\<close>. A single dimension with 5 basis
  functions gives the 3 rows with the entries \<open>(i, 1), (i + 1, -2), (i + 2, 1)\<close> for
  \<open>i = 0, 1, 2\<close>.
\<close>

theorem difference_matrix_rows:
  "((getDimX bs = length ns \<and> getNumBasisFunctionsPerVariable bs = ns \<and> (\<forall>n\<in>set ns. 3 \<le> n)
     \<and> prod_list ns < 2 ^ 31 \<and> rowCount ns < 2 ^ 31) \<longrightarrow>
      (\<exists>D. getSecondOrderFiniteDifferenceMatrix bs = Inr D
         \<and> rows D = rowCount ns
         \<and> cols D = getNumBasisFunctions bs
         \<and> length (elems D) = 3 * rows D
         \<and> (\<forall>e\<in>set (elems D). fst e < rows D)
         \<and> (\<forall>i<rows D. \<exists>d<length ns. \<exists>m.
               gridPoint ns m \<and> m ! d + 2 < ns ! d
               \<and> 0 < stride ns d \<and> flatIndex ns m + 2 * stride ns d < prod_list ns
               \<and> rowEntries D i = stencilAt ns d m i)
         \<and> (\<forall>d<length ns. \<forall>m. gridPoint ns m \<and> m ! d + 2 < ns ! d \<longrightarrow>
               (\<exists>!i. i < rows D \<and> rowEntries D i = stencilAt ns d m i))
         \<and> (\<forall>i i' d d' m m'.
               i \<le> i' \<and> i' < rows D \<and> d < length ns \<and> d' < length ns
               \<and> rowEntries D i = stencilAt ns d m i \<and> rowEntries D i' = stencilAt ns d' m' i'
               \<longrightarrow> d' \<le> d)))
   \<and> (\<forall>m. length m = length ns \<longrightarrow> flatIndex ns m = (\<Sum>j<length ns. m ! j * stride ns j))
   \<and> getNumBasisFunctionsPerVariable fiveShell = [5]
   \<and> getSecondOrderFiniteDifferenceMatrix fiveShell =
       Inr \<lparr>rows = 3, cols = 5,
            elems = [(0, 0, 1), (0, 1, - 2), (0, 2, 1),
                     (1, 1, 1), (1, 2, - 2), (1, 3, 1),
                     (2, 2, 1), (2, 3, - 2), (2, 4, 1)]\<rparr>"
proof (intro conjI impI)
  assume a: "getDimX bs = length ns \<and> getNumBasisFunctionsPerVariable bs = ns \<and> (\<forall>n\<in>set ns. 3 \<le> n)
     \<and> prod_list ns < 2 ^ 31 \<and> rowCount ns < 2 ^ 31"
  then have three: "\<forall>n\<in>set ns. 3 \<le> n" by simp
  let ?ks = "all_stencils (rev ns) (length ns)"
  let ?D = "\<lparr>rows = rowCount ns, cols = getNumBasisFunctions bs, elems = rowsFrom 0 ?ks\<rparr>"
  have D: "getSecondOrderFiniteDifferenceMatrix bs = Inr ?D"
    using a by (intro difference_matrix_value) simp_all
  have len: "length ?ks = rowCount ns" by (rule length_all_stencils_rowCount)
  have row: "rowEntries ?D i = [(i, fst (?ks ! i), 1), (i, fst (?ks ! i) + snd (?ks ! i), - 2),
                                (i, fst (?ks ! i) + 2 * snd (?ks ! i), 1)]"
    if "i < rowCount ns" for i
    using that by (simp add: rowEntries_def filter_rowsFrom len)
  have stencil: "?ks ! i = (flatIndex ns m, stride ns d)"
    if "i < rowCount ns" "rowEntries ?D i = stencilAt ns d m i" for i d m
    using row [OF that(1)] that(2) by (simp add: stencilAt_def prod_eq_iff)
  have forms: "\<exists>d<length ns. \<exists>m. gridPoint ns m \<and> m ! d + 2 < ns ! d
                  \<and> 0 < stride ns d \<and> flatIndex ns m + 2 * stride ns d < prod_list ns
                  \<and> rowEntries ?D i = stencilAt ns d m i"
    if i: "i < rowCount ns" for i
  proof -
    have "?ks ! i \<in> set ?ks" using i len by simp
    then obtain p m where p: "p < length ns" "gridPoint ns m" "m ! p + 2 < ns ! p"
      "?ks ! i = (flatIndex ns m, stride ns p)"
      unfolding set_all_stencils by blast
    have "0 < stride ns p" using three by (rule stride_pos)
    moreover have "flatIndex ns m + 2 * stride ns p < prod_list ns"
      using p(1-3) by (rule stencil_in_range)
    moreover have "rowEntries ?D i = stencilAt ns p m i"
      using row [OF i] p(4) by (simp add: stencilAt_def)
    ultimately show ?thesis using p(1-3) by blast
  qed
  have covers: "\<exists>!i. i < rowCount ns \<and> rowEntries ?D i = stencilAt ns d m i"
    if "d < length ns" "gridPoint ns m \<and> m ! d + 2 < ns ! d" for d m
  proof (rule ex_ex1I)
    have "(flatIndex ns m, stride ns d) \<in> set ?ks"
      unfolding set_all_stencils using that by blast
    then obtain i where "i < length ?ks" "?ks ! i = (flatIndex ns m, stride ns d)"
      by (auto simp: in_set_conv_nth)
    then show "\<exists>i. i < rowCount ns \<and> rowEntries ?D i = stencilAt ns d m i"
      using row [of i] len by (auto simp: stencilAt_def)
  next
    fix i i'
    assume "i < rowCount ns \<and> rowEntries ?D i = stencilAt ns d m i"
      and "i' < rowCount ns \<and> rowEntries ?D i' = stencilAt ns d m i'"
    then have "?ks ! i = ?ks ! i'" "i < length ?ks" "i' < length ?ks"
      using stencil [of i d m] stencil [of i' d m] len by simp_all
    then show "i = i'"
      using distinct_all_stencils [OF three] by (simp add: nth_eq_iff_index_eq)
  qed
  have order: "d' \<le> d"
    if "i \<le> i' \<and> i' < rowCount ns \<and> d < length ns \<and> d' < length ns
          \<and> rowEntries ?D i = stencilAt ns d m i \<and> rowEntries ?D i' = stencilAt ns d' m' i'"
    for i i' d d' m m'
  proof (rule ccontr)
    assume "\<not> d' \<le> d"
    then have "stride ns d' < stride ns d"
      using stride_decreasing [OF three, of d d'] that by simp
    moreover have "snd (?ks ! i) = stride ns d" "snd (?ks ! i') = stride ns d'"
      using stencil [of i d m] stencil [of i' d' m'] that by simp_all
    moreover have "map snd ?ks ! i \<le> map snd ?ks ! i'"
      using sorted_all_stencils [OF three] that len by (intro sorted_nth_mono) simp_all
    ultimately show False using that len by simp
  qed
  show "\<exists>D. getSecondOrderFiniteDifferenceMatrix bs = Inr D
         \<and> rows D = rowCount ns
         \<and> cols D = getNumBasisFunctions bs
         \<and> length (elems D) = 3 * rows D
         \<and> (\<forall>e\<in>set (elems D). fst e < rows D)
         \<and> (\<forall>i<rows D. \<exists>d<length ns. \<exists>m.
               gridPoint ns m \<and> m ! d + 2 < ns ! d
               \<and> 0 < stride ns d \<and> flatIndex ns m + 2 * stride ns d < prod_list ns
               \<and> rowEntries D i = stencilAt ns d m i)
         \<and> (\<forall>d<length ns. \<forall>m. gridPoint ns m \<and> m ! d + 2 < ns ! d \<longrightarrow>
               (\<exists>!i. i < rows D \<and> rowEntries D i = stencilAt ns d m i))
         \<and> (\<forall>i i' d d' m m'.
               i \<le> i' \<and> i' < rows D \<and> d < length ns \<and> d' < length ns
               \<and> rowEntries D i = stencilAt ns d m i \<and> rowEntries D i' = stencilAt ns d' m' i'
               \<longrightarrow> d' \<le> d)"
  proof (intro exI [of _ ?D] conjI)
    show "\<forall>e\<in>set (elems ?D). fst e < rows ?D"
      using rowsFrom_rows [of _ 0 ?ks] len by auto
    show "\<forall>i i' d d' m m'.
               i \<le> i' \<and> i' < rows ?D \<and> d < length ns \<and> d' < length ns
               \<and> rowEntries ?D i = stencilAt ns d m i \<and> rowEntries ?D i' = stencilAt ns d' m' i'
               \<longrightarrow> d' \<le> d"
      using order by simp blast
  qed (use D len forms covers in \<open>simp_all add: length_rowsFrom\<close>)
next
  show "\<forall>m. length m = length ns \<longrightarrow> flatIndex ns m = (\<Sum>j<length ns. m ! j * stride ns j)"
    by (simp add: flatIndex_sum)
  show "getNumBasisFunctionsPerVariable fiveShell = [5]"
    by (simp add: fiveShell_def BSpline_ctor_def)
  show "getSecondOrderFiniteDifferenceMatrix fiveShell =
       Inr \<lparr>rows = 3, cols = 5,
            elems = [(0, 0, 1), (0, 1, - 2), (0, 2, 1),
                     (1, 1, 1), (1, 2, - 2), (1, 3, 1),
                     (2, 2, 1), (2, 3, - 2), (2, 4, 1)]\<rparr>"
    using fiveShell_matrix by (simp add: fiveMatrix_def)
qed

theorem difference_matrix_rows_witness:
  "\<exists>D. getSecondOrderFiniteDifferenceMatrix gridShell = Inr D
      \<and> rows D = 10 \<and> cols D = 12 \<and> length (elems D) = 30
      \<and> stride [3, 4] 0 = 4 \<and> stride [3, 4] 1 = 1
      \<and> (\<exists>!i. i < rows D \<and> rowEntries D i = stencilAt [3, 4] 0 [0, 1] i)
      \<and> rowEntries D 7 = stencilAt [3, 4] 0 [0, 1] 7
      \<and> rowEntries D 7 = [(7, 1, 1), (7, 5, - 2), (7, 9, 1)]
      \<and> rowEntries D 3 = stencilAt [3, 4] 1 [1, 1] 3
      \<and> rowEntries D 3 = [(3, 5, 1), (3, 6, - 2), (3, 7, 1)]"
proof -
  have r: "rowCount [3, 4] = 10"
    by code_simp
  have h: "getDimX gridShell = length [3, 4::nat]
            \<and> getNumBasisFunctionsPerVariable gridShell = [3, 4]
            \<and> (\<forall>n\<in>set [3, 4::nat]. 3 \<le> n)
            \<and> prod_list [3, 4::nat] < 2 ^ 31 \<and> rowCount [3, 4] < 2 ^ 31"
    by (simp add: gridShell_def BSpline_ctor_def r)
  from difference_matrix_rows [of gridShell "[3, 4]"] h
  obtain D where D: "getSecondOrderFiniteDifferenceMatrix gridShell = Inr D"
    "rows D = rowCount [3, 4]" "cols D = getNumBasisFunctions gridShell"
    "length (elems D) = 3 * rows D"
    and cov: "\<forall>d<length [3, 4::nat]. \<forall>m. gridPoint [3, 4] m \<and> m ! d + 2 < [3, 4] ! d \<longrightarrow>
               (\<exists>!i. i < rows D \<and> rowEntries D i = stencilAt [3, 4] d m i)"
    by blast
  have g: "gridPoint [3, 4] [0, 1] \<and> [0, 1::nat] ! 0 + 2 < [3, 4::nat] ! 0"
    by (simp add: gridPoint_def)
  have one: "\<exists>!i. i < rows D \<and> rowEntries D i = stencilAt [3, 4] 0 [0, 1] i"
    using cov g by simp
  have m: "D = gridMatrix"
    using D(1) gridShell_matrix by simp
  have e: "rowEntries gridMatrix 7 = [(7, 1, 1), (7, 5, - 2), (7, 9, 1)]"
    "rowEntries gridMatrix 3 = [(3, 5, 1), (3, 6, - 2), (3, 7, 1)]"
    by (simp_all add: rowEntries_def gridMatrix_def)
  have st: "stride [3, 4] 0 = 4" "stride [3, 4] 1 = 1"
    "stencilAt [3, 4] 0 [0, 1] 7 = [(7, 1, 1), (7, 5, - 2), (7, 9, 1)]"
    "stencilAt [3, 4] 1 [1, 1] 3 = [(3, 5, 1), (3, 6, - 2), (3, 7, 1)]"
    by (simp_all add: stride_def stencilAt_def)
  show ?thesis
    using D one e st r unfolding m
    by (intro exI [of _ gridMatrix]) (simp add: gridMatrix_def gridShell_def BSpline_ctor_def)
qed

text \<open>
  As long as no value wraps, every column of the difference matrix has at most three
  nonzero coefficients for each dimension.
\<close>

lemma difference_matrix_column_bound:
  assumes "getDimX bs = length ns" and "getNumBasisFunctionsPerVariable bs = ns"
    and "\<forall>n\<in>set ns. 3 \<le> n" and "prod_list ns < 2 ^ 31" and "rowCount ns < 2 ^ 31"
  shows "\<exists>D. getSecondOrderFiniteDifferenceMatrix bs = Inr D
           \<and> (\<forall>c. columnNonZeros D c \<le> 3 * getDimX bs)"
proof -
  let ?D = "\<lparr>rows = rowCount ns, cols = getNumBasisFunctions bs,
             elems = rowsFrom 0 (all_stencils (rev ns) (length ns))\<rparr>"
  have D: "getSecondOrderFiniteDifferenceMatrix bs = Inr ?D"
    using assms by (rule difference_matrix_value)
  have "columnNonZeros ?D c \<le> 3 * getDimX bs" for c
    using columnNonZeros_le_triplets [of ?D c] column_triplets [of c "rev ns"] assms(1) by simp
  with D show ?thesis
    by blast
qed

text \<open>
  C9. The source states the bound itself, in the comment of line 257
  (\<^verbatim>\<open>D has no more than two elems per col per dim\<close>), and reserves \<open>2 * dim_x\<close>
  entries for every column. Its insertion loops break that bound: for a single dimension
  with 5 basis functions, where \<open>2 * dim_x = 2\<close>, the source reserves 2 entries for
  column 2 and inserts 3 nonzero coefficients into it (in the rows 0, 1 and 2).
\<close>

theorem difference_matrix_column_exceeds_reserve:
  "getSecondOrderFiniteDifferenceMatrix fiveShell = Inr fiveMatrix
   \<and> 2 * getDimX fiveShell = 2
   \<and> reserveSizes fiveShell ! 2 = 2
   \<and> filter (\<lambda>e. fst (snd e) = 2) (elems fiveMatrix) = [(0, 2, 1), (1, 2, - 2), (2, 2, 1)]
   \<and> columnNonZeros fiveMatrix 2 = 3"
proof -
  have "[0..<3] = [0, 1, 2]" by code_simp
  then have "columnNonZeros fiveMatrix 2 = 3"
    by (simp add: columnNonZeros_def matrix_of_def fiveMatrix_def)
  moreover have "reserveSizes fiveShell ! 2 = 2"
    by (simp add: reserveSizes_def fiveShell_def BSpline_ctor_def)
  moreover have "filter (\<lambda>e. fst (snd e) = 2) (elems fiveMatrix)
                   = [(0, 2, 1), (1, 2, - 2), (2, 2, 1)]"
    by (simp add: fiveMatrix_def)
  ultimately show ?thesis
    by (simp add: fiveShell_matrix) (simp add: fiveShell_def BSpline_ctor_def)
qed

subsection \<open>The assembled system\<close>

lemma matrix_eqI:
  "nrows M = nrows N \<Longrightarrow> ncols M = ncols N \<Longrightarrow> (\<And>i j. coeff M i j = coeff N i j)
     \<Longrightarrow> M = (N :: matrix)"
  by (cases M, cases N) (simp add: fun_eq_iff)

lemma matrix_shapes [simp]:
  "nrows (transpose_mat M) = ncols M" "ncols (transpose_mat M) = nrows M"
  "nrows (mat_mult M N) = nrows M" "ncols (mat_mult M N) = ncols N"
  "nrows (mat_add M N) = nrows M" "ncols (mat_add M N) = ncols M"
  "nrows (scalar_mult a M) = nrows M" "ncols (scalar_mult a M) = ncols M"
  "nrows (setIdentity r c) = r" "ncols (setIdentity r c) = c"
  by (simp_all add: transpose_mat_def mat_mult_def mat_add_def scalar_mult_def setIdentity_def)

lemma scalar_mult_mat_mult:
  "mat_mult (scalar_mult a M) N = scalar_mult a (mat_mult M N)"
  by (rule matrix_eqI) (simp_all add: mat_mult_def scalar_mult_def sum_distrib_left mult.assoc)

lemma mat_mult_identity:
  "mat_mult (transpose_mat B) (setIdentity (nrows B) (nrows B)) = transpose_mat B"
proof (rule matrix_eqI)
  fix i j
  show "coeff (mat_mult (transpose_mat B) (setIdentity (nrows B) (nrows B))) i j
          = coeff (transpose_mat B) i j"
  proof (cases "i < ncols B \<and> j < nrows B")
    case True
    have "(\<Sum>k<nrows B. (if k < nrows B then coeff B k i else 0) * (if k = j then 1 else 0))
            = (\<Sum>k<nrows B. if k = j then coeff B j i else 0)"
      by (rule sum.cong) simp_all
    also have "\<dots> = coeff B j i" using True by simp
    finally show ?thesis
      using True by (simp add: mat_mult_def transpose_mat_def setIdentity_def cong: if_cong)
  next
    case False
    then show ?thesis by (auto simp: mat_mult_def transpose_mat_def setIdentity_def)
  qed
qed (simp_all add: mat_mult_def transpose_mat_def setIdentity_def)

lemma mat_add_zero_scaled:
  "mat_add (mat_mult M N) (scalar_mult 0 Y) = mat_mult M N"
  by (rule matrix_eqI) (simp_all add: mat_add_def mat_mult_def scalar_mult_def)

lemma mat_mult_assoc:
  assumes "ncols M \<le> nrows N"
  shows "mat_mult (mat_mult M N) P = mat_mult M (mat_mult N P)"
proof (rule matrix_eqI)
  fix i j
  show "coeff (mat_mult (mat_mult M N) P) i j = coeff (mat_mult M (mat_mult N P)) i j"
  proof (cases "i < nrows M \<and> j < ncols P")
    case True
    have "(\<Sum>l<ncols N. (if l < ncols N then \<Sum>k<ncols M. coeff M i k * coeff N k l else 0) * coeff P l j)
            = (\<Sum>l<ncols N. \<Sum>k<ncols M. coeff M i k * coeff N k l * coeff P l j)"
      by (rule sum.cong) (simp_all add: sum_distrib_right)
    also have "\<dots> = (\<Sum>k<ncols M. \<Sum>l<ncols N. coeff M i k * coeff N k l * coeff P l j)"
      by (rule sum.swap)
    also have "\<dots> = (\<Sum>k<ncols M. coeff M i k
                        * (if k < nrows N then \<Sum>l<ncols N. coeff N k l * coeff P l j else 0))"
      using assms by (intro sum.cong) (simp_all add: sum_distrib_left mult.assoc)
    finally show ?thesis
      using True by (simp add: mat_mult_def cong: if_cong)
  next
    case False
    then show ?thesis by (auto simp: mat_mult_def)
  qed
qed (simp_all add: mat_mult_def)

lemma ridge_gradient:
  fixes B :: "nat \<Rightarrow> nat \<Rightarrow> real" and y u :: "nat \<Rightarrow> real"
  assumes "\<forall>i<n. (\<Sum>k<n. ((\<Sum>s<m. B s i * B s k) + (if i = k then g else 0)) * u k)
                    = (\<Sum>s<m. B s i * y s)"
    and "i < n"
  shows "(\<Sum>s<m. B s i * ((\<Sum>k<n. B s k * u k) - y s)) + g * u i = 0"
proof -
  have "(\<Sum>k<n. ((\<Sum>s<m. B s i * B s k) + (if i = k then g else 0)) * u k)
          = (\<Sum>k<n. (\<Sum>s<m. B s i * B s k) * u k) + (\<Sum>k<n. (if i = k then g else 0) * u k)"
    by (simp add: distrib_right sum.distrib)
  also have "(\<Sum>k<n. (if i = k then g else 0) * u k) = (\<Sum>k<n. if k = i then g * u k else 0)"
    by (rule sum.cong) auto
  also have "\<dots> = g * u i"
    using assms(2) by simp
  also have "(\<Sum>k<n. (\<Sum>s<m. B s i * B s k) * u k) = (\<Sum>k<n. \<Sum>s<m. B s i * (B s k * u k))"
    by (simp add: sum_distrib_right mult.assoc)
  also have "\<dots> = (\<Sum>s<m. \<Sum>k<n. B s i * (B s k * u k))"
    by (rule sum.swap)
  also have "\<dots> = (\<Sum>s<m. B s i * (\<Sum>k<n. B s k * u k))"
    by (simp add: sum_distrib_left)
  finally have "(\<Sum>s<m. B s i * (\<Sum>k<n. B s k * u k)) + g * u i = (\<Sum>s<m. B s i * y s)"
    using assms by simp
  then show ?thesis
    by (simp add: right_diff_distrib sum_subtractf)
qed

lemma ridge_minimizer:
  fixes B :: "nat \<Rightarrow> nat \<Rightarrow> real" and y u w :: "nat \<Rightarrow> real"
  assumes normal: "\<forall>i<n. (\<Sum>k<n. ((\<Sum>s<m. B s i * B s k) + (if i = k then g else 0)) * u k)
                    = (\<Sum>s<m. B s i * y s)"
    and g: "0 \<le> g"
  shows "(\<Sum>s<m. ((\<Sum>k<n. B s k * u k) - y s)\<^sup>2) + g * (\<Sum>k<n. (u k)\<^sup>2)
           \<le> (\<Sum>s<m. ((\<Sum>k<n. B s k * w k) - y s)\<^sup>2) + g * (\<Sum>k<n. (w k)\<^sup>2)"
proof -
  define r where "r s = (\<Sum>k<n. B s k * u k) - y s" for s
  define d where "d k = w k - u k" for k
  define e where "e s = (\<Sum>k<n. B s k * d k)" for s
  have grad: "(\<Sum>s<m. B s i * r s) + g * u i = 0" if "i < n" for i
    unfolding r_def using ridge_gradient [OF normal that] .
  have res: "(\<Sum>k<n. B s k * w k) - y s = r s + e s" for s
    by (simp add: r_def e_def d_def right_diff_distrib sum_subtractf)
  have "(\<Sum>s<m. r s * e s) = (\<Sum>s<m. \<Sum>k<n. d k * (B s k * r s))"
    by (simp add: e_def sum_distrib_left mult_ac)
  also have "\<dots> = (\<Sum>k<n. \<Sum>s<m. d k * (B s k * r s))"
    by (rule sum.swap)
  also have "\<dots> = (\<Sum>k<n. d k * (\<Sum>s<m. B s k * r s))"
    by (simp add: sum_distrib_left)
  finally have "(\<Sum>s<m. r s * e s) + g * (\<Sum>k<n. u k * d k)
                  = (\<Sum>k<n. d k * ((\<Sum>s<m. B s k * r s) + g * u k))"
    by (simp add: sum_distrib_left sum.distrib distrib_left mult_ac)
  also have "\<dots> = 0"
    by (rule sum.neutral) (simp add: grad)
  finally have cross: "(\<Sum>s<m. r s * e s) + g * (\<Sum>k<n. u k * d k) = 0" .
  have "(\<Sum>s<m. ((\<Sum>k<n. B s k * w k) - y s)\<^sup>2) = (\<Sum>s<m. (r s)\<^sup>2 + 2 * (r s * e s) + (e s)\<^sup>2)"
    unfolding res by (rule sum.cong) (simp_all add: power2_sum)
  then have f: "(\<Sum>s<m. ((\<Sum>k<n. B s k * w k) - y s)\<^sup>2)
                  = (\<Sum>s<m. (r s)\<^sup>2) + 2 * (\<Sum>s<m. r s * e s) + (\<Sum>s<m. (e s)\<^sup>2)"
    by (simp add: sum.distrib sum_distrib_left)
  have "(\<Sum>k<n. (w k)\<^sup>2) = (\<Sum>k<n. (u k)\<^sup>2 + 2 * (u k * d k) + (d k)\<^sup>2)"
    by (rule sum.cong) (simp_all add: d_def power2_eq_square algebra_simps)
  then have p: "(\<Sum>k<n. (w k)\<^sup>2)
                  = (\<Sum>k<n. (u k)\<^sup>2) + 2 * (\<Sum>k<n. u k * d k) + (\<Sum>k<n. (d k)\<^sup>2)"
    by (simp add: sum.distrib sum_distrib_left)
  have "(\<Sum>s<m. ((\<Sum>k<n. B s k * w k) - y s)\<^sup>2) + g * (\<Sum>k<n. (w k)\<^sup>2)
          = (\<Sum>s<m. (r s)\<^sup>2) + g * (\<Sum>k<n. (u k)\<^sup>2)
            + 2 * ((\<Sum>s<m. r s * e s) + g * (\<Sum>k<n. u k * d k))
            + ((\<Sum>s<m. (e s)\<^sup>2) + g * (\<Sum>k<n. (d k)\<^sup>2))"
    unfolding f p by (simp add: algebra_simps)
  moreover have "0 \<le> (\<Sum>s<m. (e s)\<^sup>2) + g * (\<Sum>k<n. (d k)\<^sup>2)"
    using g by (intro add_nonneg_nonneg mult_nonneg_nonneg sum_nonneg) simp_all
  ultimately have "(\<Sum>s<m. (r s)\<^sup>2) + g * (\<Sum>k<n. (u k)\<^sup>2)
          \<le> (\<Sum>s<m. ((\<Sum>k<n. B s k * w k) - y s)\<^sup>2) + g * (\<Sum>k<n. (w k)\<^sup>2)"
    unfolding cross by linarith
  then show ?thesis
    by (simp add: r_def)
qed

lemma quadratic_nonneg_linear_zero:
  fixes a c :: real
  assumes "\<And>t. 0 \<le> 2 * t * a + t\<^sup>2 * c"
  shows "a = 0"
proof (cases "c = 0")
  case True
  have "0 \<le> 2 * (- a) * a + (- a)\<^sup>2 * c" by (rule assms)
  then have "0 \<le> - 2 * a\<^sup>2" using True by (simp add: power2_eq_square)
  then show ?thesis by (simp add: mult_le_0_iff)
next
  case False
  have c: "0 < c"
  proof (rule ccontr)
    assume "\<not> 0 < c"
    then have neg: "c < 0" using False by simp
    define t where "t = (\<bar>a\<bar> + 1) * 2 / (- c)"
    have t: "0 < t" unfolding t_def using neg by (intro divide_pos_pos) simp_all
    have "0 \<le> 2 * t * a + t\<^sup>2 * c" by (rule assms)
    also have "\<dots> = t * (2 * a + t * c)" by (simp add: power2_eq_square algebra_simps)
    finally have "0 \<le> 2 * a + t * c"
      using t by (simp add: zero_le_mult_iff)
    moreover have "t * c = - ((\<bar>a\<bar> + 1) * 2)" unfolding t_def using neg by simp
    ultimately have "0 \<le> 2 * a - (\<bar>a\<bar> + 1) * 2" by simp
    then show False by (simp add: abs_if split: if_splits)
  qed
  define t where "t = - a / c"
  have tc: "t * c = - a" unfolding t_def using c by simp
  have "0 \<le> 2 * t * a + t\<^sup>2 * c" by (rule assms)
  also have "\<dots> = t * (2 * a + t * c)" by (simp add: power2_eq_square algebra_simps)
  also have "\<dots> = t * a" unfolding tc by simp
  also have "\<dots> = - (a\<^sup>2 / c)" unfolding t_def by (simp add: power2_eq_square)
  finally have "a\<^sup>2 / c \<le> 0" by simp
  then have "a\<^sup>2 \<le> 0" using c by (simp add: divide_le_0_iff)
  then show ?thesis by simp
qed

lemma gradient_normal_equations:
  fixes B :: "nat \<Rightarrow> nat \<Rightarrow> real" and y u :: "nat \<Rightarrow> real"
  shows "(\<Sum>s<m. B s i * ((\<Sum>k<n. B s k * u k) - y s))
           = (\<Sum>k<n. (\<Sum>s<m. B s i * B s k) * u k) - (\<Sum>s<m. B s i * y s)"
proof -
  have "(\<Sum>k<n. (\<Sum>s<m. B s i * B s k) * u k) = (\<Sum>k<n. \<Sum>s<m. B s i * (B s k * u k))"
    by (simp add: sum_distrib_right mult.assoc)
  also have "\<dots> = (\<Sum>s<m. \<Sum>k<n. B s i * (B s k * u k))"
    by (rule sum.swap)
  also have "\<dots> = (\<Sum>s<m. B s i * (\<Sum>k<n. B s k * u k))"
    by (simp add: sum_distrib_left)
  finally show ?thesis
    by (simp add: right_diff_distrib sum_subtractf)
qed

lemma least_squares_gradient:
  fixes B :: "nat \<Rightarrow> nat \<Rightarrow> real" and y u :: "nat \<Rightarrow> real"
  assumes min: "\<And>w. (\<Sum>s<m. ((\<Sum>k<n. B s k * u k) - y s)\<^sup>2)
                       \<le> (\<Sum>s<m. ((\<Sum>k<n. B s k * w k) - y s)\<^sup>2)"
    and i: "i < n"
  shows "(\<Sum>s<m. B s i * ((\<Sum>k<n. B s k * u k) - y s)) = 0"
proof (rule quadratic_nonneg_linear_zero [where c = "\<Sum>s<m. (B s i)\<^sup>2"])
  fix t :: real
  define r where "r s = (\<Sum>k<n. B s k * u k) - y s" for s
  define w where "w k = u k + (if k = i then t else 0)" for k
  have "(\<Sum>k<n. B s k * w k) = (\<Sum>k<n. B s k * u k) + (\<Sum>k<n. if k = i then B s k * t else 0)" for s
    unfolding w_def by (simp add: distrib_left sum.distrib if_distrib [of "\<lambda>x. _ * x"] cong: if_cong)
  then have res: "(\<Sum>k<n. B s k * w k) - y s = r s + t * B s i" for s
    using i by (simp add: r_def)
  have "(\<Sum>s<m. (r s)\<^sup>2) \<le> (\<Sum>s<m. (r s + t * B s i)\<^sup>2)"
    using min [of w] unfolding res r_def .
  also have "\<dots> = (\<Sum>s<m. (r s)\<^sup>2 + (2 * t * (B s i * r s) + t\<^sup>2 * (B s i)\<^sup>2))"
    by (rule sum.cong) (simp_all add: power2_eq_square algebra_simps)
  also have "\<dots> = (\<Sum>s<m. (r s)\<^sup>2) + (2 * t * (\<Sum>s<m. B s i * r s) + t\<^sup>2 * (\<Sum>s<m. (B s i)\<^sup>2))"
    by (simp add: sum.distrib sum_distrib_left)
  finally show "0 \<le> 2 * t * (\<Sum>s<m. B s i * ((\<Sum>k<n. B s k * u k) - y s))
                       + t\<^sup>2 * (\<Sum>s<m. (B s i)\<^sup>2)"
    by (simp add: r_def)
qed

lemma solvesSystem_normal_equations:
  "solvesSystem (mat_mult (transpose_mat B) B) x (mat_mult (transpose_mat B) b) \<longleftrightarrow>
     (\<forall>i<ncols B. \<forall>j<ncols b.
        (\<Sum>k<ncols B. (\<Sum>s<nrows B. coeff B s i * coeff B s k) * coeff x k j)
          = (\<Sum>s<nrows B. coeff B s i * coeff b s j))"
proof -
  have A: "coeff (mat_mult (transpose_mat B) B) i k = (\<Sum>s<nrows B. coeff B s i * coeff B s k)"
    if "i < ncols B" "k < ncols B" for i k
    using that by (simp add: mat_mult_def transpose_mat_def)
  have r: "coeff (mat_mult (transpose_mat B) b) i j = (\<Sum>s<nrows B. coeff B s i * coeff b s j)"
    if "i < ncols B" "j < ncols b" for i j
    using that by (simp add: mat_mult_def transpose_mat_def)
  have "(\<Sum>k<ncols B. coeff (mat_mult (transpose_mat B) B) i k * coeff x k j)
          = (\<Sum>k<ncols B. (\<Sum>s<nrows B. coeff B s i * coeff B s k) * coeff x k j)"
    if "i < ncols B" for i j
    by (rule sum.cong) (simp_all add: A that)
  then show ?thesis
    unfolding solvesSystem_def by (simp add: r)
qed

lemma normal_equations_least_squares:
  "solvesSystem (mat_mult (transpose_mat B) B) x (mat_mult (transpose_mat B) b) \<longleftrightarrow>
     (\<forall>z. residual B x b \<le> residual B z b)"
proof
  assume "solvesSystem (mat_mult (transpose_mat B) B) x (mat_mult (transpose_mat B) b)"
  then have n: "\<forall>i<ncols B.
        (\<Sum>k<ncols B. ((\<Sum>s<nrows B. coeff B s i * coeff B s k) + (if i = k then 0 else 0))
            * coeff x k j)
          = (\<Sum>s<nrows B. coeff B s i * coeff b s j)" if "j < ncols b" for j
    using that unfolding solvesSystem_normal_equations by simp
  show "\<forall>z. residual B x b \<le> residual B z b"
  proof
    fix z :: matrix
    have c: "(\<Sum>s<nrows B. ((\<Sum>k<ncols B. coeff B s k * coeff x k j) - coeff b s j)\<^sup>2)
            \<le> (\<Sum>s<nrows B. ((\<Sum>k<ncols B. coeff B s k * coeff z k j) - coeff b s j)\<^sup>2)"
      if "j < ncols b" for j
      using ridge_minimizer [OF n [OF that], of "\<lambda>k. coeff z k j"] by simp
    show "residual B x b \<le> residual B z b"
      unfolding residual_def by (rule sum_mono) (simp add: c)
  qed
next
  assume min: "\<forall>z. residual B x b \<le> residual B z b"
  let ?F = "\<lambda>w j. (\<Sum>s<nrows B. ((\<Sum>k<ncols B. coeff B s k * w k) - coeff b s j)\<^sup>2)"
  have col: "?F (\<lambda>k. coeff x k j) j \<le> ?F w j" if j: "j < ncols b" for j w
  proof -
    define z where "z = x\<lparr>coeff := (\<lambda>k j'. if j' = j then w k else coeff x k j')\<rparr>"
    have zj: "coeff z k j = w k" for k by (simp add: z_def)
    have zo: "coeff z k j' = coeff x k j'" if "j' \<noteq> j" for k j' using that by (simp add: z_def)
    have fin: "finite {..<ncols b}" "j \<in> {..<ncols b}" using j by simp_all
    have "residual B x b = ?F (\<lambda>k. coeff x k j) j
            + (\<Sum>j'\<in>{..<ncols b} - {j}. ?F (\<lambda>k. coeff x k j') j')"
      unfolding residual_def by (rule sum.remove [OF fin])
    moreover have "residual B z b = ?F (\<lambda>k. coeff z k j) j
            + (\<Sum>j'\<in>{..<ncols b} - {j}. ?F (\<lambda>k. coeff z k j') j')"
      unfolding residual_def by (rule sum.remove [OF fin])
    moreover have "(\<Sum>j'\<in>{..<ncols b} - {j}. ?F (\<lambda>k. coeff z k j') j')
            = (\<Sum>j'\<in>{..<ncols b} - {j}. ?F (\<lambda>k. coeff x k j') j')"
      by (rule sum.cong) (simp_all add: zo)
    ultimately show ?thesis
      using min [rule_format, of z] by (simp add: zj)
  qed
  have "(\<Sum>k<ncols B. (\<Sum>s<nrows B. coeff B s i * coeff B s k) * coeff x k j)
          = (\<Sum>s<nrows B. coeff B s i * coeff b s j)"
    if "i < ncols B" "j < ncols b" for i j
  proof -
    have "(\<Sum>s<nrows B. coeff B s i
             * ((\<Sum>k<ncols B. coeff B s k * coeff x k j) - coeff b s j)) = 0"
      by (rule least_squares_gradient [OF col [OF that(2)] that(1)])
    then show ?thesis
      using gradient_normal_equations [where B = "coeff B" and u = "\<lambda>k. coeff x k j"
          and y = "\<lambda>s. coeff b s j" and i = i and m = "nrows B" and n = "ncols B"]
      by simp
  qed
  then show "solvesSystem (mat_mult (transpose_mat B) B) x (mat_mult (transpose_mat B) b)"
    unfolding solvesSystem_normal_equations by simp
qed

lemma basis_matrix_shape:
  "nrows (matrix_of (computeBasisFunctionMatrix env bspline data)) = getNumSamples data"
  "ncols (matrix_of (computeBasisFunctionMatrix env bspline data)) = getNumBasisFunctions bspline"
  by (simp_all add: matrix_of_def computeBasisFunctionMatrix_shape)

text \<open>
  C2. Let \<open>B\<close> be the basis matrix of the samples (one row per sample, one column per
  basis function) and \<open>b\<close> the stacked sample values. In mode \<open>NONE\<close> the system is
  \<open>(B, b)\<close> unchanged. In mode \<open>IDENTITY\<close> it is \<open>A = Bt B + alpha I\<close> with \<open>I\<close>
  the identity whose dimension is the number of basis functions, and the right-hand side
  \<open>Bt b\<close>. In mode \<open>PSPLINE\<close> it is \<open>A = Bt W B + alpha (Dt D)\<close> and the right-hand
  side \<open>Bt W b\<close>, with \<open>W\<close> the identity of size \<open>numSamples\<close> and \<open>D\<close> the
  second-order finite-difference matrix.
\<close>

theorem assembleSystem_modes:
  "stackSamplePointValues data = Inr b \<longrightarrow>
     (let B = matrix_of (computeBasisFunctionMatrix env bspline data);
          Bt = transpose_mat B;
          W = setIdentity (getNumSamples data) (getNumSamples data);
          I = setIdentity (getNumBasisFunctions bspline) (getNumBasisFunctions bspline)
      in nrows B = getNumSamples data \<and> ncols B = getNumBasisFunctions bspline
         \<and> snd (assembleSystem env bspline data NONE alpha) = Inr (B, b)
         \<and> snd (assembleSystem env bspline data IDENTITY alpha) =
              Inr (mat_add (mat_mult Bt B) (scalar_mult alpha I), mat_mult Bt b)
         \<and> (\<forall>Ds. getSecondOrderFiniteDifferenceMatrix bspline = Inr Ds \<longrightarrow>
               snd (assembleSystem env bspline data PSPLINE alpha) =
                 Inr (mat_add (mat_mult (mat_mult Bt W) B)
                        (scalar_mult alpha (mat_mult (transpose_mat (matrix_of Ds)) (matrix_of Ds))),
                      mat_mult (mat_mult Bt W) b)))"
proof
  assume b: "stackSamplePointValues data = Inr b"
  let ?B = "matrix_of (computeBasisFunctionMatrix env bspline data)"
  have cols: "ncols (mat_mult (transpose_mat ?B) ?B) = getNumBasisFunctions bspline"
    by (simp add: mat_mult_def basis_matrix_shape)
  have none: "snd (assembleSystem env bspline data NONE alpha) = Inr (?B, b)"
    by (simp add: assembleSystem_def b Let_def)
  have ident: "snd (assembleSystem env bspline data IDENTITY alpha) =
      Inr (mat_add (mat_mult (transpose_mat ?B) ?B)
             (scalar_mult alpha
                (setIdentity (getNumBasisFunctions bspline) (getNumBasisFunctions bspline))),
           mat_mult (transpose_mat ?B) b)"
    by (simp add: assembleSystem_def b Let_def basis_matrix_shape)
  have psp: "snd (assembleSystem env bspline data PSPLINE alpha) =
      Inr (mat_add (mat_mult (mat_mult (transpose_mat ?B)
                      (setIdentity (getNumSamples data) (getNumSamples data))) ?B)
             (scalar_mult alpha (mat_mult (transpose_mat (matrix_of Ds)) (matrix_of Ds))),
           mat_mult (mat_mult (transpose_mat ?B)
                      (setIdentity (getNumSamples data) (getNumSamples data))) b)"
    if "getSecondOrderFiniteDifferenceMatrix bspline = Inr Ds" for Ds
    using that by (simp add: assembleSystem_def b Let_def scalar_mult_mat_mult)
  show "let B = ?B;
          Bt = transpose_mat B;
          W = setIdentity (getNumSamples data) (getNumSamples data);
          I = setIdentity (getNumBasisFunctions bspline) (getNumBasisFunctions bspline)
      in nrows B = getNumSamples data \<and> ncols B = getNumBasisFunctions bspline
         \<and> snd (assembleSystem env bspline data NONE alpha) = Inr (B, b)
         \<and> snd (assembleSystem env bspline data IDENTITY alpha) =
              Inr (mat_add (mat_mult Bt B) (scalar_mult alpha I), mat_mult Bt b)
         \<and> (\<forall>Ds. getSecondOrderFiniteDifferenceMatrix bspline = Inr Ds \<longrightarrow>
               snd (assembleSystem env bspline data PSPLINE alpha) =
                 Inr (mat_add (mat_mult (mat_mult Bt W) B)
                        (scalar_mult alpha (mat_mult (transpose_mat (matrix_of Ds)) (matrix_of Ds))),
                      mat_mult (mat_mult Bt W) b))"
    unfolding Let_def using none ident psp by (simp add: basis_matrix_shape)
qed

theorem assembleSystem_modes_witness:
  "\<exists>b. stackSamplePointValues twoSamples = Inr b
      \<and> snd (assembleSystem stubCollaborators fiveShell twoSamples NONE 1) =
          Inr (matrix_of (computeBasisFunctionMatrix stubCollaborators fiveShell twoSamples), b)
      \<and> snd (assembleSystem stubCollaborators fiveShell twoSamples PSPLINE 1) =
          Inr (mat_add
                 (mat_mult
                    (mat_mult
                       (transpose_mat
                          (matrix_of (computeBasisFunctionMatrix stubCollaborators fiveShell twoSamples)))
                       (setIdentity 2 2))
                    (matrix_of (computeBasisFunctionMatrix stubCollaborators fiveShell twoSamples)))
                 (scalar_mult 1 (mat_mult (transpose_mat (matrix_of fiveMatrix)) (matrix_of fiveMatrix))),
               mat_mult
                 (mat_mult
                    (transpose_mat
                       (matrix_of (computeBasisFunctionMatrix stubCollaborators fiveShell twoSamples)))
                    (setIdentity 2 2))
                 b)"
proof -
  obtain b where b: "stackSamplePointValues twoSamples = Inr b"
    using stackSamplePointValues_twoSamples by blast
  have n: "getNumSamples twoSamples = 2" by (simp add: getNumSamples_def twoSamples_def)
  show ?thesis
    using assembleSystem_modes [of twoSamples b stubCollaborators fiveShell 1] b fiveShell_matrix
    by (simp add: Let_def n)
qed

lemma assembleSystem_IDENTITY_zero:
  assumes "stackSamplePointValues data = Inr b"
  shows "snd (assembleSystem env bspline data IDENTITY 0) =
           Inr (mat_mult (transpose_mat (matrix_of (computeBasisFunctionMatrix env bspline data)))
                  (matrix_of (computeBasisFunctionMatrix env bspline data)),
                mat_mult (transpose_mat (matrix_of (computeBasisFunctionMatrix env bspline data))) b)"
  by (simp add: assembleSystem_def assms Let_def mat_add_zero_scaled)

lemma assembleSystem_PSPLINE_zero:
  assumes "stackSamplePointValues data = Inr b"
    and "getSecondOrderFiniteDifferenceMatrix bspline = Inr Ds"
  shows "snd (assembleSystem env bspline data PSPLINE 0) =
           Inr (mat_mult (transpose_mat (matrix_of (computeBasisFunctionMatrix env bspline data)))
                  (matrix_of (computeBasisFunctionMatrix env bspline data)),
                mat_mult (transpose_mat (matrix_of (computeBasisFunctionMatrix env bspline data))) b)"
proof -
  let ?B = "matrix_of (computeBasisFunctionMatrix env bspline data)"
  have W: "mat_mult (transpose_mat ?B) (setIdentity (getNumSamples data) (getNumSamples data))
             = transpose_mat ?B"
    using mat_mult_identity [of ?B] by (simp add: basis_matrix_shape)
  show ?thesis
    by (simp add: assembleSystem_def assms Let_def W scalar_mult_mat_mult mat_add_zero_scaled)
qed

lemma computeControlPoints_snd:
  "snd (computeControlPoints env bspline data smoothing alpha) =
     (case snd (assembleSystem env bspline data smoothing alpha) of
        Inl e \<Rightarrow> Inl e
      | Inr (A, b) \<Rightarrow> snd (solveSystem env A b))"
  by (simp add: computeControlPoints_def split: prod.splits sum.splits)

lemma fit_snd:
  "snd (fit env builder data smoothing alpha) =
     (if tableDimX data \<noteq> dim_x builder then Inl DimensionMismatch
      else if tableDimY data \<noteq> dim_y builder then Inl DimensionMismatch
      else if alpha < 0 then Inl InvalidParameter
      else
        (case computeKnotVectors env builder data of
           Inl e \<Rightarrow> Inl e
         | Inr knotVectors \<Rightarrow>
             map_sum id
               (setControlPoints
                  (BSpline_ctor (dim_x builder) (dim_y builder) knotVectors (degrees builder)))
               (snd (computeControlPoints env
                       (BSpline_ctor (dim_x builder) (dim_y builder) knotVectors (degrees builder))
                       data smoothing alpha))))"
  by (simp add: fit_def Let_def split: sum.splits prod.splits)

lemma computeControlPoints_zero:
  assumes "getDimX bspline = length (getNumBasisFunctionsPerVariable bspline)"
    and "\<forall>n\<in>set (getNumBasisFunctionsPerVariable bspline). 3 \<le> n"
  shows "snd (computeControlPoints env bspline data PSPLINE 0)
           = snd (computeControlPoints env bspline data IDENTITY 0)"
proof (cases "stackSamplePointValues data")
  case (Inl e)
  then show ?thesis
    by (simp add: computeControlPoints_snd assembleSystem_def Let_def)
next
  case (Inr b)
  obtain Ds where "getSecondOrderFiniteDifferenceMatrix bspline = Inr Ds"
    using difference_matrix_returns [OF assms(1) refl assms(2)] by blast
  then show ?thesis
    unfolding computeControlPoints_snd
    by (simp add: assembleSystem_PSPLINE_zero [OF Inr] assembleSystem_IDENTITY_zero [OF Inr])
qed

text \<open>
  C6, as amended. With \<open>alpha = 0\<close> the penalty vanishes from the system: \<open>IDENTITY\<close>
  assembles the normal equations \<open>(Bt B, Bt b)\<close> of the least-squares problem \<open>(B, b)\<close>
  that \<open>NONE\<close> hands to the solver unchanged, and so does \<open>PSPLINE\<close> whenever the
  difference matrix can be built. The exact solutions of these normal equations are
  exactly the \<open>x\<close> of least squared residual for \<open>(B, b)\<close>, and every exact solution of
  \<open>B x = b\<close> is one of them. A fit in mode \<open>PSPLINE\<close> with \<open>alpha = 0\<close> and at least
  3 basis functions in every dimension returns what the fit in mode \<open>IDENTITY\<close> with
  \<open>alpha = 0\<close> returns.
\<close>

theorem alpha_zero_normal_equations:
  "(stackSamplePointValues data = Inr b \<longrightarrow>
      (let B = matrix_of (computeBasisFunctionMatrix env bspline data);
           Bt = transpose_mat B
       in snd (assembleSystem env bspline data NONE 0) = Inr (B, b)
          \<and> snd (assembleSystem env bspline data IDENTITY 0) = Inr (mat_mult Bt B, mat_mult Bt b)
          \<and> (\<forall>Ds. getSecondOrderFiniteDifferenceMatrix bspline = Inr Ds \<longrightarrow>
                snd (assembleSystem env bspline data PSPLINE 0) =
                  Inr (mat_mult Bt B, mat_mult Bt b))
          \<and> (\<forall>x. mat_mult B x = b \<longrightarrow> mat_mult (mat_mult Bt B) x = mat_mult Bt b)
          \<and> (\<forall>x. solvesSystem (mat_mult Bt B) x (mat_mult Bt b)
                    \<longleftrightarrow> (\<forall>z. residual B x b \<le> residual B z b))))
   \<and> (\<forall>knotVectors.
         computeKnotVectors env builder data = Inr knotVectors
         \<and> (\<forall>n\<in>set (getNumBasisFunctionsPerVariable
                        (BSpline_ctor (dim_x builder) (dim_y builder) knotVectors
                           (degrees builder))). 3 \<le> n)
         \<longrightarrow> snd (fit env builder data PSPLINE 0) = snd (fit env builder data IDENTITY 0))"
proof (intro conjI impI allI)
  assume b: "stackSamplePointValues data = Inr b"
  let ?B = "matrix_of (computeBasisFunctionMatrix env bspline data)"
  have "mat_mult (mat_mult (transpose_mat ?B) ?B) x = mat_mult (transpose_mat ?B) b"
    if "mat_mult ?B x = b" for x
  proof -
    have "mat_mult (mat_mult (transpose_mat ?B) ?B) x
            = mat_mult (transpose_mat ?B) (mat_mult ?B x)"
      by (rule mat_mult_assoc) (simp add: transpose_mat_def)
    then show ?thesis using that by simp
  qed
  moreover have "snd (assembleSystem env bspline data NONE 0) = Inr (?B, b)"
    by (simp add: assembleSystem_def b Let_def)
  ultimately show "let B = ?B; Bt = transpose_mat B
       in snd (assembleSystem env bspline data NONE 0) = Inr (B, b)
          \<and> snd (assembleSystem env bspline data IDENTITY 0) = Inr (mat_mult Bt B, mat_mult Bt b)
          \<and> (\<forall>Ds. getSecondOrderFiniteDifferenceMatrix bspline = Inr Ds \<longrightarrow>
                snd (assembleSystem env bspline data PSPLINE 0) =
                  Inr (mat_mult Bt B, mat_mult Bt b))
          \<and> (\<forall>x. mat_mult B x = b \<longrightarrow> mat_mult (mat_mult Bt B) x = mat_mult Bt b)
          \<and> (\<forall>x. solvesSystem (mat_mult Bt B) x (mat_mult Bt b)
                    \<longleftrightarrow> (\<forall>z. residual B x b \<le> residual B z b))"
    unfolding Let_def
    using assembleSystem_IDENTITY_zero [OF b, of env bspline]
      assembleSystem_PSPLINE_zero [OF b, of bspline _ env]
      normal_equations_least_squares [of ?B _ b]
    by blast
next
  fix knotVectors
  assume a: "computeKnotVectors env builder data = Inr knotVectors
         \<and> (\<forall>n\<in>set (getNumBasisFunctionsPerVariable
                        (BSpline_ctor (dim_x builder) (dim_y builder) knotVectors
                           (degrees builder))). 3 \<le> n)"
  let ?bs = "BSpline_ctor (dim_x builder) (dim_y builder) knotVectors (degrees builder)"
  from a have kv: "computeKnotVectors env builder data = Inr knotVectors" by simp
  have len: "getDimX ?bs = length (getNumBasisFunctionsPerVariable ?bs)"
    by (rule shell_counts_length [OF kv])
  have "snd (computeControlPoints env ?bs data PSPLINE 0)
           = snd (computeControlPoints env ?bs data IDENTITY 0)"
    using a by (intro computeControlPoints_zero len) simp
  then show "snd (fit env builder data PSPLINE 0) = snd (fit env builder data IDENTITY 0)"
    using a by (simp add: fit_snd)
qed

lemma fit_cubic_IDENTITY_zero:
  "\<exists>bs. snd (fit stubCollaborators (Builder_ctor 1 1) twoSamples IDENTITY 0) = Inr bs"
proof -
  obtain b where b: "stackSamplePointValues twoSamples = Inr b"
    using stackSamplePointValues_twoSamples by blast
  have a: "(0::real) \<le> 0" by simp
  have n: "getNumBasisFunctions (BSpline_ctor (dim_x (Builder_ctor 1 1)) (dim_y (Builder_ctor 1 1))
              [[0, 0, 0, 0, 1, 1, 1, 1]] (degrees (Builder_ctor 1 1))) = 4"
    by (simp add: BSpline_ctor_def Builder_ctor_def getBSplineDegrees_def eval_nat_numeral)
  have d: "denseQR_solve stubCollaborators = (\<lambda>A b. Some b)"
    by (simp add: stubCollaborators_def)
  show ?thesis
    unfolding fit_snd computeControlPoints_snd
    using twoSamples_cubic_dims
    by (simp add: computeKnotVectors_cubic assembleSystem_IDENTITY_zero [OF b] solveSystem_def
        Let_def basis_matrix_shape n d del: One_nat_def)
qed

theorem alpha_zero_normal_equations_witness:
  "\<exists>b. stackSamplePointValues twoSamples = Inr b
      \<and> snd (assembleSystem stubCollaborators fiveShell twoSamples PSPLINE 0) =
          Inr (mat_mult
                 (transpose_mat
                    (matrix_of (computeBasisFunctionMatrix stubCollaborators fiveShell twoSamples)))
                 (matrix_of (computeBasisFunctionMatrix stubCollaborators fiveShell twoSamples)),
               mat_mult
                 (transpose_mat
                    (matrix_of (computeBasisFunctionMatrix stubCollaborators fiveShell twoSamples)))
                 b)
      \<and> snd (fit stubCollaborators (Builder_ctor 1 1) twoSamples PSPLINE 0)
          = snd (fit stubCollaborators (Builder_ctor 1 1) twoSamples IDENTITY 0)
      \<and> \<not> isl (snd (fit stubCollaborators (Builder_ctor 1 1) twoSamples IDENTITY 0))"
proof -
  obtain b where b: "stackSamplePointValues twoSamples = Inr b"
    using stackSamplePointValues_twoSamples by blast
  obtain bs where bs: "snd (fit stubCollaborators (Builder_ctor 1 1) twoSamples IDENTITY 0) = Inr bs"
    using fit_cubic_IDENTITY_zero by blast
  note t = alpha_zero_normal_equations [of twoSamples b stubCollaborators fiveShell
      "Builder_ctor 1 1"]
  have "snd (assembleSystem stubCollaborators fiveShell twoSamples PSPLINE 0) =
          Inr (mat_mult
                 (transpose_mat
                    (matrix_of (computeBasisFunctionMatrix stubCollaborators fiveShell twoSamples)))
                 (matrix_of (computeBasisFunctionMatrix stubCollaborators fiveShell twoSamples)),
               mat_mult
                 (transpose_mat
                    (matrix_of (computeBasisFunctionMatrix stubCollaborators fiveShell twoSamples)))
                 b)"
    using t b fiveShell_matrix unfolding Let_def by blast
  moreover have "snd (fit stubCollaborators (Builder_ctor 1 1) twoSamples PSPLINE 0)
          = snd (fit stubCollaborators (Builder_ctor 1 1) twoSamples IDENTITY 0)"
    using t computeKnotVectors_cubic cubic_shell_big by blast
  ultimately show ?thesis using b bs by auto
qed

lemma fit_linear_NONE:
  "\<exists>bs. snd (fit stubCollaborators linearBuilder twoSamples NONE 0) = Inr bs"
proof -
  obtain b where b: "stackSamplePointValues twoSamples = Inr b"
    using stackSamplePointValues_twoSamples by blast
  have n: "getNumSamples twoSamples = 2" by (simp add: getNumSamples_def twoSamples_def)
  have a: "(0::real) \<le> 0" by simp
  show ?thesis
    unfolding fit_reaches_computeControlPoints [OF twoSamples_linear_dims a computeKnotVectors_linear]
    by (simp add: computeControlPoints_def assembleSystem_def b Let_def solveSystem_def
        matrix_of_def computeBasisFunctionMatrix_shape n stubCollaborators_def)
qed

lemma fit_linear_PSPLINE_zero:
  "snd (fit stubCollaborators linearBuilder twoSamples PSPLINE 0) = Inl InvalidConfiguration"
proof -
  obtain b where b: "stackSamplePointValues twoSamples = Inr b"
    using stackSamplePointValues_twoSamples by blast
  have a: "(0::real) \<le> 0" by simp
  show ?thesis
    using fit_PSPLINE_small [OF twoSamples_linear_dims a computeKnotVectors_linear b refl
        linear_shell_small]
    by simp
qed

text \<open>
  C6 as stated fails: with \<open>alpha = 0\<close> and a dimension of 2 basis functions the fit in
  mode \<open>PSPLINE\<close> fails with \<open>InvalidConfiguration\<close>, while the fit in mode \<open>NONE\<close>
  on the same data returns a spline.
\<close>

theorem alpha_zero_counterexample:
  "snd (fit stubCollaborators linearBuilder twoSamples PSPLINE 0) = Inl InvalidConfiguration
   \<and> \<not> isl (snd (fit stubCollaborators linearBuilder twoSamples NONE 0))"
  using fit_linear_PSPLINE_zero fit_linear_NONE by auto

subsection \<open>The norm of the coefficients under ridge regression\<close>

lemma ridge_monotone:
  fixes B :: "nat \<Rightarrow> nat \<Rightarrow> real" and y u v :: "nat \<Rightarrow> real"
  assumes u: "\<forall>i<n. (\<Sum>k<n. ((\<Sum>s<m. B s i * B s k) + (if i = k then a else 0)) * u k)
                    = (\<Sum>s<m. B s i * y s)"
    and v: "\<forall>i<n. (\<Sum>k<n. ((\<Sum>s<m. B s i * B s k) + (if i = k then c else 0)) * v k)
                    = (\<Sum>s<m. B s i * y s)"
    and "0 \<le> a" and "a < c"
  shows "(\<Sum>k<n. (v k)\<^sup>2) \<le> (\<Sum>k<n. (u k)\<^sup>2)"
proof -
  let ?f = "\<lambda>w. (\<Sum>s<m. ((\<Sum>k<n. B s k * w k) - y s)\<^sup>2)"
  let ?n = "\<lambda>w. (\<Sum>k<n. (w k)\<^sup>2)"
  have 1: "?f u + a * ?n u \<le> ?f v + a * ?n v"
    using ridge_minimizer [OF u assms(3)] .
  have 2: "?f v + c * ?n v \<le> ?f u + c * ?n u"
    using ridge_minimizer [OF v] assms(3,4) by simp
  have "(c - a) * ?n v \<le> (c - a) * ?n u"
    using 1 2 by (simp add: algebra_simps)
  then show ?thesis
    using assms(4) by (simp add: mult_le_cancel_left_pos)
qed

lemma solveSystem_exact:
  assumes "exactSolver (sparseLU_solve env)" and "exactSolver (denseQR_solve env)"
    and "snd (solveSystem env A b) = Inr x"
  shows "nrows x = ncols A \<and> ncols x = ncols b
         \<and> (\<forall>i<nrows A. \<forall>j<ncols b. (\<Sum>k<ncols A. coeff A i k * coeff x k j) = coeff b i j)"
proof -
  have "sparseLU_solve env A b = Some x \<or> denseQR_solve env A b = Some x"
    using assms(3) by (auto simp: solveSystem_def Let_def split: option.splits if_splits)
  then show ?thesis
    using assms(1,2) unfolding exactSolver_def solvesSystem_def by blast
qed

lemma stackSamplePointValues_shape:
  "stackSamplePointValues data = Inr b \<Longrightarrow>
     nrows b = getNumSamples data \<and> ncols b = tableDimY data"
  by (auto simp: stackSamplePointValues_def split: sum.splits)

lemma IDENTITY_normal_equations:
  assumes "exactSolver (sparseLU_solve env)" and "exactSolver (denseQR_solve env)"
    and "snd (computeControlPoints env bs data IDENTITY a) = Inr x"
    and b: "stackSamplePointValues data = Inr b"
  shows "nrows x = getNumBasisFunctions bs \<and> ncols x = tableDimY data
    \<and> (\<forall>j<tableDimY data. \<forall>i<getNumBasisFunctions bs.
           (\<Sum>k<getNumBasisFunctions bs.
              ((\<Sum>s<getNumSamples data.
                  coeff (matrix_of (computeBasisFunctionMatrix env bs data)) s i
                  * coeff (matrix_of (computeBasisFunctionMatrix env bs data)) s k)
               + (if i = k then a else 0)) * coeff x k j)
           = (\<Sum>s<getNumSamples data.
                coeff (matrix_of (computeBasisFunctionMatrix env bs data)) s i * coeff b s j))"
proof -
  let ?B = "matrix_of (computeBasisFunctionMatrix env bs data)"
  let ?n = "getNumBasisFunctions bs" and ?m = "getNumSamples data"
  let ?A = "mat_add (mat_mult (transpose_mat ?B) ?B) (scalar_mult a (setIdentity ?n ?n))"
  let ?b = "mat_mult (transpose_mat ?B) b"
  have sys: "snd (assembleSystem env bs data IDENTITY a) = Inr (?A, ?b)"
    by (simp add: assembleSystem_def b Let_def basis_matrix_shape)
  then have "snd (solveSystem env ?A ?b) = Inr x"
    using assms(3) by (simp add: computeControlPoints_snd)
  from solveSystem_exact [OF assms(1,2) this]
  have shape: "nrows x = ?n" "ncols x = ncols b"
    and sol: "\<And>i j. i < ?n \<Longrightarrow> j < ncols b \<Longrightarrow>
                (\<Sum>k<?n. coeff ?A i k * coeff x k j) = coeff ?b i j"
    by (simp_all add: basis_matrix_shape)
  have cb: "ncols b = tableDimY data"
    using stackSamplePointValues_shape [OF b] by simp
  have "(\<Sum>k<?n. ((\<Sum>s<?m. coeff ?B s i * coeff ?B s k) + (if i = k then a else 0)) * coeff x k j)
          = (\<Sum>s<?m. coeff ?B s i * coeff b s j)"
    if j: "j < tableDimY data" and i: "i < ?n" for i j
  proof -
    have A: "coeff ?A i k = (\<Sum>s<?m. coeff ?B s i * coeff ?B s k) + (if i = k then a else 0)"
      if "k < ?n" for k
      using that i
      by (simp add: mat_add_def mat_mult_def scalar_mult_def setIdentity_def transpose_mat_def
          basis_matrix_shape)
    have rhs: "coeff ?b i j = (\<Sum>s<?m. coeff ?B s i * coeff b s j)"
      using i j cb
      by (simp add: mat_mult_def transpose_mat_def basis_matrix_shape)
    have "(\<Sum>k<?n. ((\<Sum>s<?m. coeff ?B s i * coeff ?B s k) + (if i = k then a else 0)) * coeff x k j)
            = (\<Sum>k<?n. coeff ?A i k * coeff x k j)"
      by (rule sum.cong) (simp_all add: A)
    then show ?thesis
      using sol [OF i] j cb rhs by simp
  qed
  then show ?thesis
    using shape cb by simp
qed

lemma computeControlPoints_Inr_stack:
  "snd (computeControlPoints env bs data smoothing a) = Inr x \<Longrightarrow>
     \<exists>b. stackSamplePointValues data = Inr b"
  by (cases "stackSamplePointValues data")
    (auto simp: computeControlPoints_snd assembleSystem_def Let_def)

lemma ridge_solutions_monotone:
  assumes ex: "exactSolver (sparseLU_solve env)" "exactSolver (denseQR_solve env)"
    and a: "0 \<le> a1" "a1 \<le> a2"
    and x1: "snd (computeControlPoints env bs data IDENTITY a1) = Inr x1"
    and x2: "snd (computeControlPoints env bs data IDENTITY a2) = Inr x2"
  shows "(\<forall>j<tableDimY data. L2norm_column x2 j \<le> L2norm_column x1 j) \<and> L2norm x2 \<le> L2norm x1"
proof (cases "a1 = a2")
  case True
  then have "x1 = x2" using x1 x2 by simp
  then show ?thesis by simp
next
  case False
  then have lt: "a1 < a2" using a by simp
  obtain b where b: "stackSamplePointValues data = Inr b"
    using computeControlPoints_Inr_stack [OF x1] by blast
  note n1 = IDENTITY_normal_equations [OF ex x1 b]
  note n2 = IDENTITY_normal_equations [OF ex x2 b]
  let ?n = "getNumBasisFunctions bs"
  let ?B = "coeff (matrix_of (computeBasisFunctionMatrix env bs data))"
  have col: "(\<Sum>k<?n. (coeff x2 k j)\<^sup>2) \<le> (\<Sum>k<?n. (coeff x1 k j)\<^sup>2)"
    if j: "j < tableDimY data" for j
  proof (rule ridge_monotone [where B = ?B and y = "\<lambda>s. coeff b s j" and m = "getNumSamples data"
        and a = a1 and c = a2])
    show "\<forall>i<?n. (\<Sum>k<?n. ((\<Sum>s<getNumSamples data. ?B s i * ?B s k) + (if i = k then a1 else 0))
                      * coeff x1 k j)
                  = (\<Sum>s<getNumSamples data. ?B s i * coeff b s j)"
      using n1 j by blast
    show "\<forall>i<?n. (\<Sum>k<?n. ((\<Sum>s<getNumSamples data. ?B s i * ?B s k) + (if i = k then a2 else 0))
                      * coeff x2 k j)
                  = (\<Sum>s<getNumSamples data. ?B s i * coeff b s j)"
      using n2 j by blast
  qed (use a lt in simp_all)
  have "L2norm_column x2 j \<le> L2norm_column x1 j" if "j < tableDimY data" for j
    using col [OF that] n1 n2 by (simp add: L2norm_column_def)
  moreover have "L2norm x2 \<le> L2norm x1"
  proof -
    have "(\<Sum>j<tableDimY data. \<Sum>k<?n. (coeff x2 k j)\<^sup>2)
            \<le> (\<Sum>j<tableDimY data. \<Sum>k<?n. (coeff x1 k j)\<^sup>2)"
      by (rule sum_mono) (simp add: col)
    then show ?thesis
      using n1 n2 by (simp add: L2norm_def)
  qed
  ultimately show ?thesis by blast
qed

text \<open>
  C7. Over the real numbers and with solvers that return exact solutions: for fixed data
  and \<open>0 \<le> alpha1 \<le> alpha2\<close>, the coefficients a fit in mode \<open>IDENTITY\<close> returns for
  \<open>alpha2\<close> have an L2 norm no greater than those it returns for \<open>alpha1\<close>, for
  the whole coefficient matrix and for each output dimension.
\<close>

theorem ridge_norm_monotone:
  assumes "exactSolver (sparseLU_solve env)" and "exactSolver (denseQR_solve env)"
    and "0 \<le> alpha1" and "alpha1 \<le> alpha2"
    and "snd (fit env builder data IDENTITY alpha1) = Inr s1"
    and "snd (fit env builder data IDENTITY alpha2) = Inr s2"
  shows "\<exists>x1 x2. getControlPoints s1 = Some x1 \<and> getControlPoints s2 = Some x2
           \<and> L2norm x2 \<le> L2norm x1
           \<and> (\<forall>j<dim_y builder. L2norm_column x2 j \<le> L2norm_column x1 j)"
proof -
  from assms(5) obtain kvs where kv: "computeKnotVectors env builder data = Inr kvs"
    and dy: "tableDimY data = dim_y builder"
    unfolding fit_snd by (auto split: if_splits sum.splits)
  let ?bs = "BSpline_ctor (dim_x builder) (dim_y builder) kvs (degrees builder)"
  have f: "snd (fit env builder data IDENTITY a) = Inr s \<Longrightarrow>
             \<exists>x. snd (computeControlPoints env ?bs data IDENTITY a) = Inr x
                  \<and> s = setControlPoints ?bs x" for a s
    unfolding fit_snd using kv
    by (cases "snd (computeControlPoints env ?bs data IDENTITY a)")
      (auto split: if_splits)
  from f [OF assms(5)] obtain x1 where
    x1: "snd (computeControlPoints env ?bs data IDENTITY alpha1) = Inr x1"
    and s1: "s1 = setControlPoints ?bs x1" by blast
  from f [OF assms(6)] obtain x2 where
    x2: "snd (computeControlPoints env ?bs data IDENTITY alpha2) = Inr x2"
    and s2: "s2 = setControlPoints ?bs x2" by blast
  from ridge_solutions_monotone [OF assms(1-4) x1 x2] dy s1 s2
  show ?thesis by (simp add: setControlPoints_def)
qed

lemma exactSolver_scalarSolve: "exactSolver scalarSolve"
  by (auto simp: exactSolver_def solvesSystem_def scalarSolve_def split: if_splits)

lemma computeKnotVectors_constant:
  "computeKnotVectors exactCollaborators constantBuilder twoSamples = Inr [[0, 1]]"
  by (simp add: computeKnotVectors_def constantBuilder_def Builder_ctor_def twoSamples_def
      at_vec_def computeKnotVector_def exactCollaborators_def stubCollaborators_def Let_def)

lemma stackSamplePointValues_twoSamples_value:
  assumes "stackSamplePointValues twoSamples = Inr b"
  shows "nrows b = 2 \<and> ncols b = 1 \<and> coeff b 0 0 = 0 \<and> coeff b 1 0 = 1"
  using assms
  by (auto simp: stackSamplePointValues_def twoSamples_def at_vec_def getNumSamples_def)

lemma basis_matrix_twoSamples:
  "computeBasisFunctionMatrix exactCollaborators bs twoSamples
     = \<lparr>rows = 2, cols = getNumBasisFunctions bs, elems = [(0, 0, 1), (1, 0, 1)]\<rparr>"
proof -
  have "[0..<2] = [0, 1]" by code_simp
  then show ?thesis
  by (simp add: computeBasisFunctionMatrix_def exactCollaborators_def getNumSamples_def twoSamples_def
      SparseMatrix_ctor_def insert_elem_def Let_def)
qed

lemma fit_constant_IDENTITY:
  assumes "0 < a"
  shows "\<exists>s x. snd (fit exactCollaborators constantBuilder twoSamples IDENTITY a) = Inr s
           \<and> getControlPoints s = Some x
           \<and> nrows x = 1 \<and> ncols x = 1 \<and> coeff x 0 0 = 1 / (2 + a)"
proof -
  let ?bs = "BSpline_ctor (dim_x constantBuilder) (dim_y constantBuilder) [[0, 1]]
               (degrees constantBuilder)"
  let ?B = "matrix_of (computeBasisFunctionMatrix exactCollaborators ?bs twoSamples)"
  obtain b where b: "stackSamplePointValues twoSamples = Inr b"
    using stackSamplePointValues_twoSamples by blast
  note bv = stackSamplePointValues_twoSamples_value [OF b]
  have n: "getNumBasisFunctions ?bs = 1"
    by (simp add: BSpline_ctor_def constantBuilder_def)
  have B: "nrows ?B = 2" "ncols ?B = 1" "coeff ?B 0 0 = 1" "coeff ?B (Suc 0) 0 = 1"
    by (simp_all add: basis_matrix_twoSamples matrix_of_def n)
  have two: "{..<2::nat} = {0, Suc 0}" by auto
  have bs: "coeff b (Suc 0) 0 = 1" using bv by simp
  let ?A = "mat_add (mat_mult (transpose_mat ?B) ?B) (scalar_mult a (setIdentity 1 1))"
  let ?r = "mat_mult (transpose_mat ?B) b"
  have sys: "snd (assembleSystem exactCollaborators ?bs twoSamples IDENTITY a) = Inr (?A, ?r)"
    by (simp add: assembleSystem_def b Let_def basis_matrix_shape n)
  have A: "coeff ?A 0 0 = 2 + a" "nrows ?A = 1" "ncols ?A = 1"
    by (simp_all add: mat_add_def mat_mult_def scalar_mult_def setIdentity_def transpose_mat_def
        B two)
  have r: "coeff ?r 0 0 = 1" "nrows ?r = 1" "ncols ?r = 1"
    using bv bs by (simp_all add: mat_mult_def transpose_mat_def B two)
  let ?x = "\<lparr>nrows = 1, ncols = 1,
              coeff = (\<lambda>i j. if i = 0 \<and> j = 0 then coeff ?r 0 0 / coeff ?A 0 0 else 0)\<rparr>"
  have x: "scalarSolve ?A ?r = Some ?x"
    using assms A r unfolding scalarSolve_def by simp
  have d: "denseQR_solve exactCollaborators = scalarSolve"
    by (simp add: exactCollaborators_def)
  have "snd (solveSystem exactCollaborators ?A ?r) = Inr ?x"
    using x A by (simp add: solveSystem_def Let_def d)
  then have "snd (computeControlPoints exactCollaborators ?bs twoSamples IDENTITY a) = Inr ?x"
    by (simp add: computeControlPoints_snd sys)
  moreover have "tableDimX twoSamples = dim_x constantBuilder"
      "tableDimY twoSamples = dim_y constantBuilder"
    by (simp_all add: twoSamples_def constantBuilder_def Builder_ctor_def)
  ultimately have "snd (fit exactCollaborators constantBuilder twoSamples IDENTITY a)
                     = Inr (setControlPoints ?bs ?x)"
    using assms by (simp add: fit_snd computeKnotVectors_constant)
  moreover have "coeff ?x 0 0 = 1 / (2 + a)"
    using A(1) r(1) by simp
  ultimately show ?thesis
    by (intro exI [of _ "setControlPoints ?bs ?x"] exI [of _ ?x]) (simp add: setControlPoints_def)
qed

lemma L2norm_scalar: "nrows x = 1 \<Longrightarrow> ncols x = 1 \<Longrightarrow> L2norm x = \<bar>coeff x 0 0\<bar>"
  by (simp add: L2norm_def)

theorem ridge_norm_monotone_witness:
  "\<exists>s1 s2 x1 x2.
      snd (fit exactCollaborators constantBuilder twoSamples IDENTITY 1) = Inr s1
      \<and> snd (fit exactCollaborators constantBuilder twoSamples IDENTITY 2) = Inr s2
      \<and> getControlPoints s1 = Some x1 \<and> getControlPoints s2 = Some x2
      \<and> coeff x1 0 0 = 1 / 3 \<and> coeff x2 0 0 = 1 / 4
      \<and> L2norm x1 = 1 / 3 \<and> L2norm x2 = 1 / 4
      \<and> L2norm x2 \<le> L2norm x1"
proof -
  obtain s1 x1 where s1: "snd (fit exactCollaborators constantBuilder twoSamples IDENTITY 1) = Inr s1"
    and x1: "getControlPoints s1 = Some x1" "nrows x1 = 1" "ncols x1 = 1" "coeff x1 0 0 = 1 / 3"
    using fit_constant_IDENTITY [of 1] by auto
  obtain s2 x2 where s2: "snd (fit exactCollaborators constantBuilder twoSamples IDENTITY 2) = Inr s2"
    and x2: "getControlPoints s2 = Some x2" "nrows x2 = 1" "ncols x2 = 1" "coeff x2 0 0 = 1 / 4"
    using fit_constant_IDENTITY [of 2] by auto
  have e: "exactSolver (sparseLU_solve exactCollaborators)"
      "exactSolver (denseQR_solve exactCollaborators)"
    by (simp_all add: exactCollaborators_def exactSolver_scalarSolve)
  have a: "(0::real) \<le> 1" "(1::real) \<le> 2" by simp_all
  have n: "L2norm x1 = 1 / 3" "L2norm x2 = 1 / 4"
    using x1 x2 by (simp_all add: L2norm_scalar)
  from ridge_norm_monotone [OF e a s1 s2] x1(1) x2(1)
  have "L2norm x2 \<le> L2norm x1" by auto
  with s1 s2 x1 x2 n show ?thesis by blast
qed

end
